theory Spec2Isabelle
  imports Main
begin

section \<open>Contact book: fields, records, registry and birthday scheduler\<close>

text \<open>
  The repository holds two variants of the same contact book.
  \<^item> \<^verbatim>\<open>1.py\<close>: the command bot (\<^verbatim>\<open>add\<close>, \<^verbatim>\<open>change\<close>, \<^verbatim>\<open>add-birthday\<close>,
    \<^verbatim>\<open>birthdays\<close>, ...). Its definitions carry the suffix \<open>_v1\<close>.
  \<^item> \<^verbatim>\<open>main.py\<close>: the menu program (\<^verbatim>\<open>name\<close>, \<^verbatim>\<open>add_phone\<close>, \<^verbatim>\<open>edit_phone\<close>,
    \<^verbatim>\<open>remove_phone\<close>, \<^verbatim>\<open>delete\<close>, ...). Its definitions carry the suffix \<open>_main\<close>.

  Python strings are modelled as \<^typ>\<open>string\<close>: a character is a code point below
  U+0100, which is what the 8-bit \<^typ>\<open>char\<close> holds (\<open>CHR 0xB2\<close> is the superscript two);
  strings with characters beyond that are outside the model. Python integers are
  \<^typ>\<open>int\<close>. An exception is a value: a function that can raise returns
  \<open>py_error + 'a\<close>, and a method that mutates its object returns the outcome paired with
  the object as the call leaves it, whether it returned or raised.
\<close>

subsection \<open>Exceptions\<close>

text \<open>
  Both files raise \<^verbatim>\<open>ValueError\<close> for a malformed field and for a missing phone or
  contact; the message tells them apart. The messages of \<^verbatim>\<open>main.py\<close> are Ukrainian
  literals; they are written here in Latin transliteration.
\<close>

datatype py_error = ValueError string | KeyError string | OverflowError string

definition phone_format_msg_v1 :: string where
  "phone_format_msg_v1 = ''Invalid phone number format. Should start from 0 and be 10 digits''"

definition date_format_msg_v1 :: string where
  "date_format_msg_v1 = ''Invalid date format. Use DD.MM.YYYY''"

definition phone_not_found_msg_v1 :: string where
  "phone_not_found_msg_v1 = ''Phone number not found''"

definition name_empty_msg_main :: string where
  "name_empty_msg_main = ''Im'' @ [CHR 0x27] @ ''ia ne mozhe buty porozhnim''"

definition phone_format_msg_main :: string where
  "phone_format_msg_main = ''Nomer telefonu maie mistyty 10 tsyfr.''"

definition date_format_msg_main :: string where
  "date_format_msg_main = ''Nevirnyi format daty. Vykorystovuite DD.MM.YYYY''"

definition phone_not_found_msg_main :: string where
  "phone_not_found_msg_main = ''Telefon ne znaideno.''"

definition old_phone_not_found_msg_main :: string where
  "old_phone_not_found_msg_main = ''Staryi nomer telefonu ne znaideno.''"

definition contact_exists_msg_main :: string where
  "contact_exists_msg_main = ''Kontakt z takym imenem vzhe isnuie.''"

definition contact_not_found_msg_main :: string where
  "contact_not_found_msg_main = ''Kontakt ne znaideno.''"

subsection \<open>Characters and \<^verbatim>\<open>str.isdigit\<close>\<close>

text \<open>
  \<^verbatim>\<open>str.isdigit()\<close> is true when the string is not empty and every character is a digit
  in the sense of Unicode (numeric type Digit or Decimal). Below U+0100 these are the
  characters \<open>0\<close> to \<open>9\<close> (code points 48 to 57) and the superscripts two, three and one
  (U+00B2, U+00B3, U+00B9).
\<close>

definition isdigit_char :: "char \<Rightarrow> bool" where
  "isdigit_char c =
     ((48 \<le> (of_char c :: nat) \<and> (of_char c :: nat) \<le> 57)
      \<or> (of_char c :: nat) = 0xB2 \<or> (of_char c :: nat) = 0xB3 \<or> (of_char c :: nat) = 0xB9)"

definition isdigit :: "string \<Rightarrow> bool" where
  "isdigit s = (s \<noteq> [] \<and> list_all isdigit_char s)"

subsection \<open>The Phone field\<close>

text \<open>
  \<^verbatim>\<open>1.py\<close>:
  \<^verbatim>\<open>
  class Phone(Field):
      def __init__(self, value):
          if not self.validate(value):
              raise ValueError("Invalid phone number format. ...")
          super().__init__(value)
      def validate(self, value):
          return len(value) == 10 and value.isdigit()
  \<close>
  \<^verbatim>\<open>main.py\<close>:
  \<^verbatim>\<open>
  class Phone(Field):
      def __init__(self, phone):
          if not phone.isdigit() or len(phone) != 10:
              raise ValueError(...)
          self.value = phone
  \<close>
  A constructed field is represented by its \<^verbatim>\<open>value\<close>.
\<close>

definition Phone_validate_v1 :: "string \<Rightarrow> bool" where
  "Phone_validate_v1 v = (int (length v) = 10 \<and> isdigit v)"

definition Phone_v1 :: "string \<Rightarrow> py_error + string" where
  "Phone_v1 v =
     (if \<not> Phone_validate_v1 v then Inl (ValueError phone_format_msg_v1) else Inr v)"

definition Phone_main :: "string \<Rightarrow> py_error + string" where
  "Phone_main phone =
     (if \<not> isdigit phone \<or> int (length phone) \<noteq> 10
      then Inl (ValueError phone_format_msg_main) else Inr phone)"

subsection \<open>The standard library's \<^verbatim>\<open>datetime.date\<close>\<close>

text \<open>
  The scheduler and the Birthday field call \<^verbatim>\<open>datetime\<close>. The functions below follow
  CPython's \<^verbatim>\<open>Lib/_pydatetime.py\<close>: a date is the triple of its fields, the constructor
  (and so \<^verbatim>\<open>replace\<close>) checks the fields and raises \<^verbatim>\<open>ValueError\<close>, dates are ordered
  as triples, and subtraction, addition of days and \<^verbatim>\<open>weekday()\<close> go through the
  proleptic Gregorian ordinal (1 January of year 1 is day 1).
\<close>

record date =
  year :: int
  month :: int
  day :: int

definition MINYEAR :: int where "MINYEAR = 1"
definition MAXYEAR :: int where "MAXYEAR = 9999"
definition MAXORDINAL :: int where "MAXORDINAL = 3652059"

definition DAYS_IN_MONTH :: "int list" where
  "DAYS_IN_MONTH = [-1, 31, 28, 31, 30, 31, 30, 31, 31, 30, 31, 30, 31]"

definition DAYS_BEFORE_MONTH :: "int list" where
  "DAYS_BEFORE_MONTH = [-1, 0, 31, 59, 90, 120, 151, 181, 212, 243, 273, 304, 334]"

definition is_leap :: "int \<Rightarrow> bool" where
  "is_leap y = (y mod 4 = 0 \<and> (y mod 100 \<noteq> 0 \<or> y mod 400 = 0))"

definition days_before_year :: "int \<Rightarrow> int" where
  "days_before_year y' = (let y = y' - 1 in y * 365 + y div 4 - y div 100 + y div 400)"

definition days_in_month :: "int \<Rightarrow> int \<Rightarrow> int" where
  "days_in_month y m = (if m = 2 \<and> is_leap y then 29 else DAYS_IN_MONTH ! nat m)"

definition days_before_month :: "int \<Rightarrow> int \<Rightarrow> int" where
  "days_before_month y m =
     DAYS_BEFORE_MONTH ! nat m + (if m > 2 \<and> is_leap y then 1 else 0)"

definition ymd2ord :: "int \<Rightarrow> int \<Rightarrow> int \<Rightarrow> int" where
  "ymd2ord y m d = days_before_year y + days_before_month y m + d"

text \<open>\<^verbatim>\<open>date(year, month, day)\<close>: the field check of the constructor.\<close>

definition date_new :: "int \<Rightarrow> int \<Rightarrow> int \<Rightarrow> py_error + date" where
  "date_new y m d =
     (if \<not> (MINYEAR \<le> y \<and> y \<le> MAXYEAR) then Inl (ValueError ''year is out of range'')
      else if \<not> (1 \<le> m \<and> m \<le> 12) then Inl (ValueError ''month must be in 1..12'')
      else if \<not> (1 \<le> d \<and> d \<le> days_in_month y m)
        then Inl (ValueError ''day is out of range for month'')
      else Inr \<lparr>year = y, month = m, day = d\<rparr>)"

text \<open>\<^verbatim>\<open>d.replace(year=y)\<close> builds a new date from the changed fields.\<close>

definition date_replace_year :: "date \<Rightarrow> int \<Rightarrow> py_error + date" where
  "date_replace_year d y = date_new y (month d) (day d)"

definition toordinal :: "date \<Rightarrow> int" where
  "toordinal d = ymd2ord (year d) (month d) (day d)"

definition weekday :: "date \<Rightarrow> int" where
  "weekday d = (toordinal d + 6) mod 7"

text \<open>\<^verbatim>\<open>a < b\<close> compares \<^verbatim>\<open>(year, month, day)\<close> as tuples.\<close>

definition date_lt :: "date \<Rightarrow> date \<Rightarrow> bool" where
  "date_lt a b =
     (year a < year b \<or> (year a = year b \<and>
        (month a < month b \<or> (month a = month b \<and> day a < day b))))"

text \<open>\<^verbatim>\<open>(a - b).days\<close>\<close>

definition days_between :: "date \<Rightarrow> date \<Rightarrow> int" where
  "days_between a b = toordinal a - toordinal b"

text \<open>
  \<^verbatim>\<open>_ord2ymd(n)\<close>, the inverse of \<^verbatim>\<open>_ymd2ord\<close>: 400-year, 100-year and 4-year cycles,
  then an estimate of the month (\<^verbatim>\<open>(n + 50) >> 5\<close>) that is one too large at most.
\<close>

definition ord2ymd :: "int \<Rightarrow> date" where
  "ord2ymd n0 =
     (let n = n0 - 1;
          n400 = n div 146097; n = n mod 146097;
          n100 = n div 36524; n = n mod 36524;
          n4 = n div 1461; n = n mod 1461;
          n1 = n div 365; n = n mod 365;
          y = n400 * 400 + 1 + n100 * 100 + n4 * 4 + n1
      in if n1 = 4 \<or> n100 = 4 then \<lparr>year = y - 1, month = 12, day = 31\<rparr>
         else
           let leapyear = (n1 = 3 \<and> (n4 \<noteq> 24 \<or> n100 = 3));
               m = (n + 50) div 32;
               preceding = DAYS_BEFORE_MONTH ! nat m + (if m > 2 \<and> leapyear then 1 else 0)
           in if preceding > n
              then let m' = m - 1;
                       preceding' = preceding -
                         (DAYS_IN_MONTH ! nat m' + (if m' = 2 \<and> leapyear then 1 else 0))
                   in \<lparr>year = y, month = m', day = n - preceding' + 1\<rparr>
              else \<lparr>year = y, month = m, day = n - preceding + 1\<rparr>)"

text \<open>
  The last step of \<^verbatim>\<open>_ord2ymd\<close> on its own: the month and the day of the \<open>n\<close>-th day
  (from 0) of a year, as the proofs about \<open>ord2ymd\<close> use it.
\<close>

definition doy2md :: "bool \<Rightarrow> int \<Rightarrow> int \<times> int" where
  "doy2md leapyear n =
     (let m = (n + 50) div 32;
          preceding = DAYS_BEFORE_MONTH ! nat m + (if m > 2 \<and> leapyear then 1 else 0)
      in if preceding > n
         then let m' = m - 1;
                  preceding' = preceding -
                    (DAYS_IN_MONTH ! nat m' + (if m' = 2 \<and> leapyear then 1 else 0))
              in (m', n - preceding' + 1)
         else (m, n - preceding + 1))"

text \<open>\<^verbatim>\<open>d + timedelta(days=k)\<close>\<close>

definition date_add_days :: "date \<Rightarrow> int \<Rightarrow> py_error + date" where
  "date_add_days d k =
     (let n = toordinal d + k
      in if 0 < n \<and> n \<le> MAXORDINAL then Inr (ord2ymd n)
         else Inl (OverflowError ''date value out of range''))"

text \<open>
  \<^verbatim>\<open>d.strftime("%Y.%m.%d")\<close>: the year in four digits, month and day in two. (For a
  year below 1000 the C library decides whether \<^verbatim>\<open>%Y\<close> pads; the padded form is
  taken.)
\<close>

fun dec_digits :: "nat \<Rightarrow> nat \<Rightarrow> string" where
  "dec_digits 0 n = []"
| "dec_digits (Suc w) n = dec_digits w (n div 10) @ [char_of (48 + n mod 10)]"

definition strftime_Ymd :: "date \<Rightarrow> string" where
  "strftime_Ymd d =
     dec_digits 4 (nat (year d)) @ ''.'' @ dec_digits 2 (nat (month d)) @ ''.'' @
     dec_digits 2 (nat (day d))"

subsection \<open>\<^verbatim>\<open>datetime.strptime(value, "%d.%m.%Y")\<close>\<close>

text \<open>
  CPython's \<^verbatim>\<open>_strptime\<close> turns the format into the regular expression
  \<^verbatim>\<open>(?P<d>3[0-1]|[1-2]\d|0[1-9]|[1-9]| [1-9])\.(?P<m>1[0-2]|0[1-9]|[1-9])\.(?P<Y>\d\d\d\d)\<close>,
  matches it at the start of the string, raises \<^verbatim>\<open>ValueError\<close> when there is no
  match or when text remains after the match, converts the three groups with \<^verbatim>\<open>int\<close>
  and builds the date, which raises \<^verbatim>\<open>ValueError\<close> for a day, month or year out of
  range. Each group below lists the ways its alternatives match a prefix, in the order
  the backtracking matcher tries them, as pairs of the matched text and the rest.
  \<^verbatim>\<open>\d\<close> matches the decimal digits of Unicode; below U+0100 these are \<open>0\<close> to \<open>9\<close> only
  (the superscripts are digits for \<^verbatim>\<open>str.isdigit\<close>, not for \<^verbatim>\<open>\d\<close>).
\<close>

definition re_digit :: "char \<Rightarrow> bool" where
  "re_digit c = (48 \<le> (of_char c :: nat) \<and> (of_char c :: nat) \<le> 57)"

definition re_d :: "string \<Rightarrow> (string \<times> string) list" where
  "re_d s =
     (case s of
        c1 # c2 # r \<Rightarrow>
          (if c1 = CHR ''3'' \<and> c2 \<in> set ''01'' then [([c1, c2], r)] else []) @
          (if c1 \<in> set ''12'' \<and> re_digit c2 then [([c1, c2], r)] else []) @
          (if c1 = CHR ''0'' \<and> c2 \<in> set ''123456789'' then [([c1, c2], r)] else [])
      | _ \<Rightarrow> []) @
     (case s of
        c1 # r \<Rightarrow> (if c1 \<in> set ''123456789'' then [([c1], r)] else [])
      | _ \<Rightarrow> []) @
     (case s of
        c1 # c2 # r \<Rightarrow>
          (if c1 = CHR '' '' \<and> c2 \<in> set ''123456789'' then [([c1, c2], r)] else [])
      | _ \<Rightarrow> [])"

definition re_m :: "string \<Rightarrow> (string \<times> string) list" where
  "re_m s =
     (case s of
        c1 # c2 # r \<Rightarrow>
          (if c1 = CHR ''1'' \<and> c2 \<in> set ''012'' then [([c1, c2], r)] else []) @
          (if c1 = CHR ''0'' \<and> c2 \<in> set ''123456789'' then [([c1, c2], r)] else [])
      | _ \<Rightarrow> []) @
     (case s of
        c1 # r \<Rightarrow> (if c1 \<in> set ''123456789'' then [([c1], r)] else [])
      | _ \<Rightarrow> [])"

definition re_Y :: "string \<Rightarrow> (string \<times> string) list" where
  "re_Y s =
     (case s of
        c1 # c2 # c3 # c4 # r \<Rightarrow>
          (if re_digit c1 \<and> re_digit c2 \<and> re_digit c3 \<and> re_digit c4
           then [([c1, c2, c3, c4], r)] else [])
      | _ \<Rightarrow> [])"

definition re_dot :: "string \<Rightarrow> string list" where
  "re_dot s = (case s of c # r \<Rightarrow> (if c = CHR ''.'' then [r] else []) | _ \<Rightarrow> [])"

definition strptime_matches :: "string \<Rightarrow> ((string \<times> string \<times> string) \<times> string) list" where
  "strptime_matches s =
     [((d, m, y), r5). (d, r1) \<leftarrow> re_d s, r2 \<leftarrow> re_dot r1, (m, r3) \<leftarrow> re_m r2,
                       r4 \<leftarrow> re_dot r3, (y, r5) \<leftarrow> re_Y r4]"

text \<open>
  \<^verbatim>\<open>int(s)\<close> on a group: blanks at both ends are stripped and the digits read in base 10.
  (The groups hold digits only, after one leading blank at most.)
\<close>

definition py_strip :: "string \<Rightarrow> string" where
  "py_strip s =
     rev (dropWhile (\<lambda>c. c = CHR '' '') (rev (dropWhile (\<lambda>c. c = CHR '' '') s)))"

definition py_int :: "string \<Rightarrow> int" where
  "py_int s = foldl (\<lambda>acc c. acc * 10 + (int (of_char c) - 48)) 0 (py_strip s)"

definition strptime :: "string \<Rightarrow> py_error + date" where
  "strptime s =
     (case strptime_matches s of
        [] \<Rightarrow> Inl (ValueError ''time data does not match format'')
      | ((d, m, y), rest) # _ \<Rightarrow>
          if rest \<noteq> [] then Inl (ValueError ''unconverted data remains'')
          else date_new (py_int y) (py_int m) (py_int d))"

subsection \<open>The Birthday field\<close>

text \<open>
  \<^verbatim>\<open>1.py\<close>:
  \<^verbatim>\<open>
  class Birthday(Field):
      def __init__(self, value):
          if not self.validate(value):
              raise ValueError("Invalid date format. Use DD.MM.YYYY")
          super().__init__(value)
      def validate(self, value):
          try:
              datetime.strptime(value, "%d.%m.%Y")
              return True
          except ValueError:
              return False
  \<close>
  \<^verbatim>\<open>main.py\<close>:
  \<^verbatim>\<open>
  class Birthday(Field):
      def __init__(self, value):
          try:
              datetime.strptime(value, "%d.%m.%Y")
              self.value = value
          except ValueError:
              raise ValueError(...)
  \<close>
  The field keeps the string, not the parsed date. \<open>strptime\<close> raises nothing but
  \<^verbatim>\<open>ValueError\<close> (lemma \<open>strptime_error\<close>), so both \<^verbatim>\<open>except\<close> clauses catch all it raises.
\<close>

definition Birthday_validate_v1 :: "string \<Rightarrow> bool" where
  "Birthday_validate_v1 v = (case strptime v of Inr _ \<Rightarrow> True | Inl _ \<Rightarrow> False)"

definition Birthday_v1 :: "string \<Rightarrow> py_error + string" where
  "Birthday_v1 v =
     (if \<not> Birthday_validate_v1 v then Inl (ValueError date_format_msg_v1) else Inr v)"

definition Birthday_main :: "string \<Rightarrow> py_error + string" where
  "Birthday_main v =
     (case strptime v of
        Inr _ \<Rightarrow> Inr v
      | Inl _ \<Rightarrow> Inl (ValueError date_format_msg_main))"

subsection \<open>Contact records\<close>

text \<open>
  A record object has a name, a list of Phone objects and a Birthday object or
  \<^verbatim>\<open>None\<close>. Fields are represented by their \<^verbatim>\<open>value\<close>. Every Phone object in the list
  is a fresh object made by \<^verbatim>\<open>add_phone\<close>, so the list never holds the same object
  twice; equal values at two positions are two objects.
\<close>

record Record =
  name :: string
  phones :: "string list"
  birthday :: "string option"

subsubsection \<open>\<^verbatim>\<open>1.py\<close>\<close>

text \<open>
  \<^verbatim>\<open>
  def __init__(self, name):
      self.name = Name(name)
      self.phones = []
      self.birthday = None
  \<close>
  \<^verbatim>\<open>Name\<close> has no check of its own in this file.
\<close>

definition Record_v1 :: "string \<Rightarrow> Record" where
  "Record_v1 nm = \<lparr>name = nm, phones = [], birthday = None\<rparr>"

text \<open>\<^verbatim>\<open>self.phones.append(Phone(phone_number))\<close>: the constructor runs before the append.\<close>

definition add_phone_v1 :: "string \<Rightarrow> Record \<Rightarrow> (py_error + unit) \<times> Record" where
  "add_phone_v1 phone_number self =
     (case Phone_v1 phone_number of
        Inl e \<Rightarrow> (Inl e, self)
      | Inr p \<Rightarrow> (Inr (), self\<lparr>phones := phones self @ [p]\<rparr>))"

text \<open>
  \<^verbatim>\<open>
  def remove_phone(self, phone_number):
      for phone in self.phones:
          if phone.value == phone_number:
              self.phones.remove(phone)
  \<close>
  The loop goes on after a removal, over the list it is changing. A list iterator is an
  index \<open>i\<close> into the live list: each round reads \<open>phones[i]\<close> and advances \<open>i\<close>, and the
  loop ends once \<open>i\<close> reaches the current length. \<^verbatim>\<open>remove(phone)\<close> deletes the first
  element equal to the object \<open>phone\<close>; fields compare by identity, so this is the
  element at the position just read.
\<close>

definition remove_at :: "nat \<Rightarrow> 'a list \<Rightarrow> 'a list" where
  "remove_at i xs = take i xs @ drop (Suc i) xs"

function remove_phone_loop_v1 :: "string \<Rightarrow> nat \<Rightarrow> string list \<Rightarrow> string list" where
  "remove_phone_loop_v1 phone_number i ps =
     (if i < length ps then
        (if ps ! i = phone_number
         then remove_phone_loop_v1 phone_number (Suc i) (remove_at i ps)
         else remove_phone_loop_v1 phone_number (Suc i) ps)
      else ps)"
  by pat_completeness auto
termination
  by (relation "measure (\<lambda>(p, i, ps). length ps - i)") (auto simp: remove_at_def)

definition remove_phone_v1 :: "string \<Rightarrow> Record \<Rightarrow> (py_error + unit) \<times> Record" where
  "remove_phone_v1 phone_number self =
     (Inr (), self\<lparr>phones := remove_phone_loop_v1 phone_number 0 (phones self)\<rparr>)"

text \<open>
  \<^verbatim>\<open>
  def edit_phone(self, old_phone, new_phone):
      for phone in self.phones:
          if phone.value == old_phone:
              phone.value = new_phone
              return
      raise ValueError("Phone number not found")
  \<close>
  The loop returns the outcome and the phones as it leaves them.
\<close>

fun edit_phone_loop_v1 ::
  "string \<Rightarrow> string \<Rightarrow> string list \<Rightarrow> (py_error + unit) \<times> string list" where
  "edit_phone_loop_v1 old_phone new_phone [] = (Inl (ValueError phone_not_found_msg_v1), [])"
| "edit_phone_loop_v1 old_phone new_phone (phone # rest) =
     (if phone = old_phone then (Inr (), new_phone # rest)
      else (case edit_phone_loop_v1 old_phone new_phone rest of
              (res, rest') \<Rightarrow> (res, phone # rest')))"

definition edit_phone_v1 :: "string \<Rightarrow> string \<Rightarrow> Record \<Rightarrow> (py_error + unit) \<times> Record" where
  "edit_phone_v1 old_phone new_phone self =
     (case edit_phone_loop_v1 old_phone new_phone (phones self) of
        (res, ps) \<Rightarrow> (res, self\<lparr>phones := ps\<rparr>))"

text \<open>\<^verbatim>\<open>self.birthday = Birthday(new_birthday)\<close>\<close>

definition add_birthday_v1 :: "string \<Rightarrow> Record \<Rightarrow> (py_error + unit) \<times> Record" where
  "add_birthday_v1 new_birthday self =
     (case Birthday_v1 new_birthday of
        Inl e \<Rightarrow> (Inl e, self)
      | Inr b \<Rightarrow> (Inr (), self\<lparr>birthday := Some b\<rparr>))"

subsubsection \<open>\<^verbatim>\<open>main.py\<close>\<close>

text \<open>
  \<^verbatim>\<open>
  class Name(Field):
      def __init__(self, name):
          if not name:
              raise ValueError(...)
          self.value = name
  def __init__(self, name, birthday=None):
      self.name = Name(name)
      self.phones = []
      self.birthday = Birthday(birthday) if birthday else None
  \<close>
  The menu passes the birthday as a string; the empty string counts as no birthday.
\<close>

definition Name_main :: "string \<Rightarrow> py_error + string" where
  "Name_main nm = (if nm = [] then Inl (ValueError name_empty_msg_main) else Inr nm)"

definition Record_main :: "string \<Rightarrow> string \<Rightarrow> py_error + Record" where
  "Record_main nm bday =
     (case Name_main nm of
        Inl e \<Rightarrow> Inl e
      | Inr n \<Rightarrow>
          if bday \<noteq> [] then
            (case Birthday_main bday of
               Inl e \<Rightarrow> Inl e
             | Inr b \<Rightarrow> Inr \<lparr>name = n, phones = [], birthday = Some b\<rparr>)
          else Inr \<lparr>name = n, phones = [], birthday = None\<rparr>)"

definition add_phone_main :: "string \<Rightarrow> Record \<Rightarrow> (py_error + unit) \<times> Record" where
  "add_phone_main phone self =
     (case Phone_main phone of
        Inl e \<Rightarrow> (Inl e, self)
      | Inr p \<Rightarrow> (Inr (), self\<lparr>phones := phones self @ [p]\<rparr>))"

text \<open>
  \<^verbatim>\<open>
  def remove_phone(self, phone):
      for p in self.phones:
          if p.value == phone:
              self.phones.remove(p)
              return
      raise ValueError(...)
  \<close>
  The loop stops at the first removal, so the list is not read again after it changed.
\<close>

fun remove_phone_loop_main :: "string \<Rightarrow> string list \<Rightarrow> (py_error + unit) \<times> string list" where
  "remove_phone_loop_main phone [] = (Inl (ValueError phone_not_found_msg_main), [])"
| "remove_phone_loop_main phone (p # rest) =
     (if p = phone then (Inr (), rest)
      else (case remove_phone_loop_main phone rest of
              (res, rest') \<Rightarrow> (res, p # rest')))"

definition remove_phone_main :: "string \<Rightarrow> Record \<Rightarrow> (py_error + unit) \<times> Record" where
  "remove_phone_main phone self =
     (case remove_phone_loop_main phone (phones self) of
        (res, ps) \<Rightarrow> (res, self\<lparr>phones := ps\<rparr>))"

text \<open>
  \<^verbatim>\<open>
  def edit_phone(self, old_phone, new_phone):
      for p in self.phones:
          if p.value == old_phone:
              p.value = Phone(new_phone).value
              return
      raise ValueError(...)
  \<close>
  The new number is checked only once the old one is found, and before the assignment.
\<close>

fun edit_phone_loop_main ::
  "string \<Rightarrow> string \<Rightarrow> string list \<Rightarrow> (py_error + unit) \<times> string list" where
  "edit_phone_loop_main old_phone new_phone [] =
     (Inl (ValueError old_phone_not_found_msg_main), [])"
| "edit_phone_loop_main old_phone new_phone (p # rest) =
     (if p = old_phone then
        (case Phone_main new_phone of
           Inl e \<Rightarrow> (Inl e, p # rest)
         | Inr v \<Rightarrow> (Inr (), v # rest))
      else (case edit_phone_loop_main old_phone new_phone rest of
              (res, rest') \<Rightarrow> (res, p # rest')))"

definition edit_phone_main :: "string \<Rightarrow> string \<Rightarrow> Record \<Rightarrow> (py_error + unit) \<times> Record" where
  "edit_phone_main old_phone new_phone self =
     (case edit_phone_loop_main old_phone new_phone (phones self) of
        (res, ps) \<Rightarrow> (res, self\<lparr>phones := ps\<rparr>))"

subsection \<open>The address book\<close>

text \<open>
  \<^verbatim>\<open>AddressBook\<close> is a \<^verbatim>\<open>UserDict\<close>: a dictionary from the name to the record. A Python
  dictionary keeps its keys in insertion order, and \<^verbatim>\<open>values()\<close> follows it, so the
  book is an association list: assigning to a present key replaces the value in place,
  assigning to a new key appends, \<^verbatim>\<open>del\<close> drops the entry.
\<close>

type_synonym AddressBook = "(string \<times> Record) list"

definition dict_get :: "('k \<times> 'v) list \<Rightarrow> 'k \<Rightarrow> 'v option" where
  "dict_get d k = map_of d k"

definition dict_contains :: "('k \<times> 'v) list \<Rightarrow> 'k \<Rightarrow> bool" where
  "dict_contains d k = (k \<in> set (map fst d))"

fun dict_set :: "'k \<Rightarrow> 'v \<Rightarrow> ('k \<times> 'v) list \<Rightarrow> ('k \<times> 'v) list" where
  "dict_set k v [] = [(k, v)]"
| "dict_set k v ((k', v') # d) = (if k' = k then (k, v) # d else (k', v') # dict_set k v d)"

definition dict_del :: "'k \<Rightarrow> ('k \<times> 'v) list \<Rightarrow> ('k \<times> 'v) list" where
  "dict_del k d = filter (\<lambda>(k', v). k' \<noteq> k) d"

definition dict_values :: "('k \<times> 'v) list \<Rightarrow> 'v list" where
  "dict_values d = map snd d"

subsubsection \<open>\<^verbatim>\<open>1.py\<close>\<close>

text \<open>
  \<^verbatim>\<open>
  def add_record(self, record):
      self.data[record.name.value] = record
  def find(self, name):
      return self.data.get(name, None)
  def delete(self, name):
      if name in self.data:
          del self.data[name]
  \<close>
\<close>

definition add_record_v1 :: "Record \<Rightarrow> AddressBook \<Rightarrow> (py_error + unit) \<times> AddressBook" where
  "add_record_v1 record book = (Inr (), dict_set (name record) record book)"

definition find_v1 :: "string \<Rightarrow> AddressBook \<Rightarrow> Record option" where
  "find_v1 nm book = dict_get book nm"

definition delete_v1 :: "string \<Rightarrow> AddressBook \<Rightarrow> (py_error + unit) \<times> AddressBook" where
  "delete_v1 nm book =
     (if dict_contains book nm then (Inr (), dict_del nm book) else (Inr (), book))"

subsubsection \<open>\<^verbatim>\<open>main.py\<close>\<close>

text \<open>
  \<^verbatim>\<open>
  def add_record(self, record):
      if record.name.value in self.data:
          raise ValueError(...)
      self.data[record.name.value] = record
  def delete_record(self, name):
      if name not in self.data:
          raise ValueError(...)
      del self.data[name]
  def search_record(self, name):
      return self.data.get(name, None)
  \<close>
\<close>

definition add_record_main :: "Record \<Rightarrow> AddressBook \<Rightarrow> (py_error + unit) \<times> AddressBook" where
  "add_record_main record book =
     (if dict_contains book (name record) then (Inl (ValueError contact_exists_msg_main), book)
      else (Inr (), dict_set (name record) record book))"

definition delete_record_main :: "string \<Rightarrow> AddressBook \<Rightarrow> (py_error + unit) \<times> AddressBook" where
  "delete_record_main nm book =
     (if \<not> dict_contains book nm then (Inl (ValueError contact_not_found_msg_main), book)
      else (Inr (), dict_del nm book))"

definition search_record_main :: "string \<Rightarrow> AddressBook \<Rightarrow> Record option" where
  "search_record_main nm book = dict_get book nm"

subsection \<open>The birthday scheduler (\<^verbatim>\<open>1.py\<close>)\<close>

text \<open>
  \<^verbatim>\<open>
  def get_upcoming_birthdays(self):
      today = datetime.now().date()
      upcoming_birthdays = []
      for record in self.data.values():
          if record.birthday:
              birthday_date = datetime.strptime(record.birthday.value, "%d.%m.%Y").date()
              birthday_this_year = birthday_date.replace(year=today.year)
              if birthday_this_year < today:
                  birthday_this_year = birthday_this_year.replace(year=today.year + 1)
              days_until_birthday = (birthday_this_year - today).days
              if 0 <= days_until_birthday <= 7:
                  congratulation_date = birthday_this_year
                  if congratulation_date.weekday() >= 5:
                      congratulation_date += timedelta(days=(7 - congratulation_date.weekday()))
                  upcoming_birthdays.append({
                      "name": record.name.value,
                      "congratulation_date": congratulation_date.strftime("%Y.%m.%d")})
      return upcoming_birthdays
  \<close>
  The clock is an argument: \<open>today\<close> is the date \<^verbatim>\<open>datetime.now().date()\<close> returns. A
  Birthday object is always true in a condition, so \<^verbatim>\<open>if record.birthday\<close> tests for
  \<^verbatim>\<open>None\<close>. \<open>upcoming_step\<close> is one round of the loop: it raises, or yields the entry
  to append, or nothing. An entry is the pair of the two values of the dictionary.
\<close>

definition upcoming_step :: "date \<Rightarrow> Record \<Rightarrow> py_error + (string \<times> string) option" where
  "upcoming_step today record =
     (case birthday record of
        None \<Rightarrow> Inr None
      | Some b \<Rightarrow>
          (case strptime b of
             Inl e \<Rightarrow> Inl e
           | Inr birthday_date \<Rightarrow>
               (case date_replace_year birthday_date (year today) of
                  Inl e \<Rightarrow> Inl e
                | Inr birthday_this_year \<Rightarrow>
                    (case (if date_lt birthday_this_year today
                           then date_replace_year birthday_this_year (year today + 1)
                           else Inr birthday_this_year) of
                       Inl e \<Rightarrow> Inl e
                     | Inr birthday_this_year \<Rightarrow>
                         let days_until_birthday = days_between birthday_this_year today
                         in if 0 \<le> days_until_birthday \<and> days_until_birthday \<le> 7 then
                              (case (if weekday birthday_this_year \<ge> 5
                                     then date_add_days birthday_this_year
                                            (7 - weekday birthday_this_year)
                                     else Inr birthday_this_year) of
                                 Inl e \<Rightarrow> Inl e
                               | Inr congratulation_date \<Rightarrow>
                                   Inr (Some (name record, strftime_Ymd congratulation_date)))
                            else Inr None))))"

fun upcoming_loop ::
  "date \<Rightarrow> Record list \<Rightarrow> (string \<times> string) list \<Rightarrow> py_error + (string \<times> string) list" where
  "upcoming_loop today [] upcoming_birthdays = Inr upcoming_birthdays"
| "upcoming_loop today (record # rest) upcoming_birthdays =
     (case upcoming_step today record of
        Inl e \<Rightarrow> Inl e
      | Inr None \<Rightarrow> upcoming_loop today rest upcoming_birthdays
      | Inr (Some entry) \<Rightarrow> upcoming_loop today rest (upcoming_birthdays @ [entry]))"

definition get_upcoming_birthdays :: "date \<Rightarrow> AddressBook \<Rightarrow> py_error + (string \<times> string) list" where
  "get_upcoming_birthdays today book = upcoming_loop today (dict_values book) []"

subsection \<open>Commands\<close>

text \<open>
  \<^verbatim>\<open>1.py\<close> wraps every command in \<^verbatim>\<open>input_error\<close>, which turns an exception into the
  text to print:
  \<^verbatim>\<open>
  except ValueError as e: return str(e)
  except KeyError as e:   return f"Contact {e} not found."
  except IndexError:      return "Invalid number of arguments."
  except Exception as e:  return f"An error occurred: {e}"
  \<close>
  An error value carries the text \<^verbatim>\<open>str(e)\<close>.
\<close>

definition input_error :: "py_error + string \<Rightarrow> string" where
  "input_error res =
     (case res of
        Inr s \<Rightarrow> s
      | Inl (ValueError m) \<Rightarrow> m
      | Inl (KeyError m) \<Rightarrow> ''Contact '' @ m @ '' not found.''
      | Inl (OverflowError m) \<Rightarrow> ''An error occurred: '' @ m)"

text \<open>
  \<^verbatim>\<open>
  @input_error
  def add_contact(args, book):
      if len(args) != 2:
          raise ValueError("Give me name and phone please.")
      name, phone = args
      record = book.find(name)
      if record:
          record.add_phone(phone)
          return "Phone added."
      else:
          record = Record(name)
          record.add_phone(phone)
          book.add_record(record)
          return "Contact added."
  \<close>
  \<open>record\<close> is the object the book holds under \<open>name\<close>: what \<^verbatim>\<open>add_phone\<close> does to it
  is seen through the book, so the record the call leaves is put back under that key.
  Each record is made by this command and stored once, so no other key shares it.
\<close>

definition add_contact_body ::
  "string list \<Rightarrow> AddressBook \<Rightarrow> (py_error + string) \<times> AddressBook" where
  "add_contact_body args book =
     (if int (length args) \<noteq> 2 then (Inl (ValueError ''Give me name and phone please.''), book)
      else
        let nm = args ! 0; phone = args ! 1 in
        (case find_v1 nm book of
           Some record \<Rightarrow>
             (case add_phone_v1 phone record of
                (Inl e, record') \<Rightarrow> (Inl e, dict_set nm record' book)
              | (Inr _, record') \<Rightarrow> (Inr ''Phone added.'', dict_set nm record' book))
         | None \<Rightarrow>
             (case add_phone_v1 phone (Record_v1 nm) of
                (Inl e, record') \<Rightarrow> (Inl e, book)
              | (Inr _, record') \<Rightarrow>
                  (case add_record_v1 record' book of
                     (Inl e, book') \<Rightarrow> (Inl e, book')
                   | (Inr _, book') \<Rightarrow> (Inr ''Contact added.'', book')))))"

definition add_contact :: "string list \<Rightarrow> AddressBook \<Rightarrow> string \<times> AddressBook" where
  "add_contact args book =
     (case add_contact_body args book of (res, book') \<Rightarrow> (input_error res, book'))"

text \<open>
  The \<^verbatim>\<open>name\<close> branch of the menu of \<^verbatim>\<open>main.py\<close>, from the \<^verbatim>\<open>try\<close> to the \<^verbatim>\<open>except\<close>:
  \<^verbatim>\<open>
  record = Record(name, birthday)
  if phone:
      record.add_phone(phone)
  book.add_record(record)
  \<close>
  The outcome is the exception the \<^verbatim>\<open>except ValueError\<close> clause reports, if any.
\<close>

definition create_record_main ::
  "string \<Rightarrow> string \<Rightarrow> string \<Rightarrow> AddressBook \<Rightarrow> (py_error + unit) \<times> AddressBook" where
  "create_record_main nm phone bday book =
     (case Record_main nm bday of
        Inl e \<Rightarrow> (Inl e, book)
      | Inr record \<Rightarrow>
          (case (if phone \<noteq> [] then add_phone_main phone record else (Inr (), record)) of
             (Inl e, record') \<Rightarrow> (Inl e, book)
           | (Inr _, record') \<Rightarrow> add_record_main record' book))"

subsection \<open>Notions of the specification\<close>

text \<open>The decimal digits and the 10-digit rule of a Phone, as the specification names them.\<close>

definition decimal_digit :: "char \<Rightarrow> bool" where
  "decimal_digit c = (c \<in> set ''0123456789'')"

definition ten_digit_rule :: "string \<Rightarrow> bool" where
  "ten_digit_rule s = (length s = 10 \<and> list_all decimal_digit s)"

definition phones_valid :: "Record \<Rightarrow> bool" where
  "phones_valid r = list_all ten_digit_rule (phones r)"

text \<open>
  The check the code makes is wider than the rule: \<open>phones_accepted\<close> says that every
  stored phone passes the check of the Phone constructor. The two agree on ASCII text.
\<close>

definition superscript_digit :: "char \<Rightarrow> bool" where
  "superscript_digit c = (c \<in> set [CHR 0xB2, CHR 0xB3, CHR 0xB9])"

definition ascii_char :: "char \<Rightarrow> bool" where
  "ascii_char c = ((of_char c :: nat) < 128)"

definition phones_accepted :: "Record \<Rightarrow> bool" where
  "phones_accepted r = list_all Phone_validate_v1 (phones r)"

text \<open>
  What the loop of \<^verbatim>\<open>remove_phone\<close> in \<^verbatim>\<open>1.py\<close> computes, read off the list from left
  to right: a matching phone is dropped and the phone after it is passed over unread.
\<close>

fun skip_remove :: "'a \<Rightarrow> 'a list \<Rightarrow> 'a list" where
  "skip_remove p [] = []"
| "skip_remove p [x] = (if x = p then [] else [x])"
| "skip_remove p (x # y # ys) =
     (if x = p then y # skip_remove p ys else x # skip_remove p (y # ys))"

text \<open>
  The texts \<^verbatim>\<open>%d\<close>, \<^verbatim>\<open>%m\<close> and \<^verbatim>\<open>%Y\<close> stand for: a day number from 1 to 31 in one or two
  characters (a single digit may follow a \<open>0\<close> or a blank), a month number from 1 to 12 in
  one or two digits, and a year in exactly four digits; \<open>real_date\<close> says that the day
  exists in that month of that year; \<open>strict_ddmmyyyy\<close> is the exact pattern of two
  digits, a dot, two digits, a dot and four digits.
\<close>

definition nonzero_digit :: "char \<Rightarrow> bool" where
  "nonzero_digit c = (c \<in> set ''123456789'')"

fun day_text :: "string \<Rightarrow> bool" where
  "day_text [c] = nonzero_digit c"
| "day_text [c1, c2] =
     ((c1 = CHR ''3'' \<and> c2 \<in> set ''01'') \<or> (c1 \<in> set ''12'' \<and> decimal_digit c2)
      \<or> (c1 \<in> set ''0 '' \<and> nonzero_digit c2))"
| "day_text _ = False"

fun month_text :: "string \<Rightarrow> bool" where
  "month_text [c] = nonzero_digit c"
| "month_text [c1, c2] =
     ((c1 = CHR ''1'' \<and> c2 \<in> set ''012'') \<or> (c1 = CHR ''0'' \<and> nonzero_digit c2))"
| "month_text _ = False"

definition year_text :: "string \<Rightarrow> bool" where
  "year_text t = (length t = 4 \<and> list_all decimal_digit t)"

definition real_date :: "int \<Rightarrow> int \<Rightarrow> int \<Rightarrow> bool" where
  "real_date y m d = (1 \<le> y \<and> y \<le> 9999 \<and> 1 \<le> m \<and> m \<le> 12 \<and> 1 \<le> d \<and> d \<le> days_in_month y m)"

definition strict_ddmmyyyy :: "string \<Rightarrow> bool" where
  "strict_ddmmyyyy s =
     (length s = 10 \<and> s ! 2 = CHR ''.'' \<and> s ! 5 = CHR ''.'' \<and>
      list_all decimal_digit (take 2 s @ take 2 (drop 3 s) @ drop 6 s))"

text \<open>
  The scheduler in the words of the specification. \<open>spec_occurrence\<close> is the stored day
  and month on today's year, moved to the next year when that date is strictly before
  today; \<open>reinterpretable\<close> says that these dates exist; the window is 0 to 7 whole days
  from today; \<open>spec_congratulation\<close> moves a Saturday (weekday 5) or a Sunday (6) forward
  by 7 minus the weekday. \<open>spec_upcoming\<close> lists, in the order of the book, the name and
  the congratulation date of every record with a birthday in the window.
\<close>

definition valid_date :: "date \<Rightarrow> bool" where
  "valid_date d = real_date (year d) (month d) (day d)"

definition spec_occurrence :: "date \<Rightarrow> date \<Rightarrow> date" where
  "spec_occurrence today bd =
     (let this_year = bd\<lparr>year := year today\<rparr>
      in if date_lt this_year today then bd\<lparr>year := year today + 1\<rparr> else this_year)"

definition reinterpretable :: "date \<Rightarrow> date \<Rightarrow> bool" where
  "reinterpretable today bd =
     (valid_date (bd\<lparr>year := year today\<rparr>) \<and> valid_date (spec_occurrence today bd))"

definition spec_in_window :: "date \<Rightarrow> date \<Rightarrow> bool" where
  "spec_in_window today d = (0 \<le> days_between d today \<and> days_between d today \<le> 7)"

definition spec_congratulation :: "date \<Rightarrow> date" where
  "spec_congratulation d =
     (if weekday d = 5 \<or> weekday d = 6 then ord2ymd (toordinal d + (7 - weekday d)) else d)"

definition spec_entries :: "date \<Rightarrow> Record \<Rightarrow> (string \<times> date) list" where
  "spec_entries today r =
     (case birthday r of
        None \<Rightarrow> []
      | Some b \<Rightarrow>
          (case strptime b of
             Inl _ \<Rightarrow> []
           | Inr bd \<Rightarrow>
               if spec_in_window today (spec_occurrence today bd)
               then [(name r, spec_congratulation (spec_occurrence today bd))] else []))"

definition spec_upcoming :: "date \<Rightarrow> AddressBook \<Rightarrow> (string \<times> date) list" where
  "spec_upcoming today book = concat (map (spec_entries today) (dict_values book))"

text \<open>An entry as the scheduler returns it: the date rendered by \<^verbatim>\<open>strftime\<close>.\<close>

definition render_entry :: "string \<times> date \<Rightarrow> string \<times> string" where
  "render_entry e = (fst e, strftime_Ymd (snd e))"

text \<open>The position of the first phone equal to \<open>old\<close> (the length of the list when there is none).\<close>

definition first_index :: "'a \<Rightarrow> 'a list \<Rightarrow> nat" where
  "first_index old ps = length (takeWhile (\<lambda>p. p \<noteq> old) ps)"

text \<open>
  Sequences of record operations. A step is the record as the call leaves it, whether it
  returned or raised. \<^verbatim>\<open>main.py\<close> has no method that sets the birthday after creation.
\<close>

datatype record_op =
  AddPhone string | RemovePhone string | EditPhone string string | SetBirthday string

fun run_op_v1 :: "Record \<Rightarrow> record_op \<Rightarrow> Record" where
  "run_op_v1 r (AddPhone p) = snd (add_phone_v1 p r)"
| "run_op_v1 r (RemovePhone p) = snd (remove_phone_v1 p r)"
| "run_op_v1 r (EditPhone old new) = snd (edit_phone_v1 old new r)"
| "run_op_v1 r (SetBirthday b) = snd (add_birthday_v1 b r)"

fun run_op_main :: "Record \<Rightarrow> record_op \<Rightarrow> Record" where
  "run_op_main r (AddPhone p) = snd (add_phone_main p r)"
| "run_op_main r (RemovePhone p) = snd (remove_phone_main p r)"
| "run_op_main r (EditPhone old new) = snd (edit_phone_main old new r)"
| "run_op_main r (SetBirthday b) = r"

fun edits_valid :: "record_op \<Rightarrow> bool" where
  "edits_valid (EditPhone old new) = Phone_validate_v1 new"
| "edits_valid _ = True"

fun ascii_op :: "record_op \<Rightarrow> bool" where
  "ascii_op (AddPhone p) = list_all ascii_char p"
| "ascii_op (EditPhone old new) = list_all ascii_char new"
| "ascii_op _ = True"

text \<open>The number an operation can add to the stored phones: one that passes the check.\<close>

fun op_number :: "record_op \<Rightarrow> string set" where
  "op_number (AddPhone p) = (if Phone_validate_v1 p then {p} else {})"
| "op_number (EditPhone old new) = (if Phone_validate_v1 new then {new} else {})"
| "op_number _ = {}"

subsection \<open>Example data\<close>

definition bob :: Record where
  "bob = \<lparr>name = ''Bob'', phones = [''1112223330''], birthday = None\<rparr>"

definition book_bob :: AddressBook where
  "book_bob = [(''Bob'', bob)]"

text \<open>Ten times the superscript two.\<close>

definition ten_superscripts :: string where
  "ten_superscripts = replicate 10 (CHR 0xB2)"

definition monday_2024_06_10 :: date where
  "monday_2024_06_10 = \<lparr>year = 2024, month = 6, day = 10\<rparr>"

definition book_june :: AddressBook where
  "book_june =
     [(''Ann'', \<lparr>name = ''Ann'', phones = [''0501234567''], birthday = Some ''12.06.1990''\<rparr>),
      (''Bob'', \<lparr>name = ''Bob'', phones = [''1112223330''], birthday = Some ''15.06.1990''\<rparr>),
      (''Cat'', \<lparr>name = ''Cat'', phones = [], birthday = Some ''01.01.1990''\<rparr>),
      (''Dan'', \<lparr>name = ''Dan'', phones = [''0670000000''], birthday = None\<rparr>)]"

definition eve :: Record where
  "eve = \<lparr>name = ''Eve'', phones = [''0501234567''], birthday = Some ''29.02.2000''\<rparr>"

definition book_eve :: AddressBook where
  "book_eve = [(''Eve'', eve)]"

definition saturday_2023_02_25 :: date where
  "saturday_2023_02_25 = \<lparr>year = 2023, month = 2, day = 25\<rparr>"

section \<open>Properties\<close>

subsection \<open>Characters\<close>

lemma re_digit_iff: "re_digit c \<longleftrightarrow> decimal_digit c"
proof -
  have "(48 \<le> n \<and> n \<le> 57) \<longleftrightarrow> n \<in> {48, 49, 50, 51, 52, 53, 54, 55, 56, 57}" for n :: nat
    by (simp, arith)
  then have "re_digit c \<longleftrightarrow>
      (of_char c :: nat) \<in> of_char ` set ''0123456789''"
    unfolding re_digit_def by simp
  also have "\<dots> \<longleftrightarrow> c \<in> set ''0123456789''"
    by (rule inj_image_mem_iff) (simp add: inj_on_def)
  finally show ?thesis
    by (simp add: decimal_digit_def)
qed

lemma superscript_digit_iff:
  "superscript_digit c \<longleftrightarrow>
     (of_char c :: nat) = 0xB2 \<or> (of_char c :: nat) = 0xB3 \<or> (of_char c :: nat) = 0xB9"
proof -
  have "superscript_digit c \<longleftrightarrow>
      (of_char c :: nat) \<in> of_char ` set [CHR 0xB2, CHR 0xB3, CHR 0xB9]"
    unfolding superscript_digit_def
    by (rule inj_image_mem_iff [symmetric]) (simp add: inj_on_def)
  then show ?thesis by simp
qed

lemma isdigit_char_iff: "isdigit_char c \<longleftrightarrow> decimal_digit c \<or> superscript_digit c"
  using re_digit_iff [of c]
  by (simp add: isdigit_char_def re_digit_def superscript_digit_iff)

lemma isdigit_char_ascii: "ascii_char c \<Longrightarrow> isdigit_char c \<longleftrightarrow> decimal_digit c"
  by (auto simp: isdigit_char_iff superscript_digit_iff ascii_char_def)

lemma isdigit_iff: "isdigit s \<longleftrightarrow> s \<noteq> [] \<and> (\<forall>c\<in>set s. isdigit_char c)"
  by (simp add: isdigit_def list_all_iff)

subsection \<open>Phone construction\<close>

text \<open>
  Both constructors make the same check, \<open>Phone_validate_v1\<close>: length 10 and
  \<^verbatim>\<open>str.isdigit\<close>. They store the string they are given and refuse every other string
  with their validation error.
\<close>

lemma Phone_validate_v1_iff:
  "Phone_validate_v1 s \<longleftrightarrow> length s = 10 \<and> (\<forall>c\<in>set s. isdigit_char c)"
  by (auto simp: Phone_validate_v1_def isdigit_iff)

lemma Phone_v1_check:
  "Phone_v1 s = (if Phone_validate_v1 s then Inr s else Inl (ValueError phone_format_msg_v1))"
  by (simp add: Phone_v1_def)

lemma Phone_main_check:
  "Phone_main s =
     (if Phone_validate_v1 s then Inr s else Inl (ValueError phone_format_msg_main))"
  by (auto simp: Phone_main_def Phone_validate_v1_def)

text \<open>
  Every string of ten characters \<open>0\<close> to \<open>9\<close> is accepted, and on ASCII text nothing else
  is: there the constructors do what the 10-digit rule says.
\<close>

lemma ten_digit_rule_accepted: "ten_digit_rule s \<Longrightarrow> Phone_validate_v1 s"
  by (simp add: ten_digit_rule_def Phone_validate_v1_iff list_all_iff isdigit_char_iff)

lemma accepted_ascii: "Phone_validate_v1 s \<Longrightarrow> list_all ascii_char s \<Longrightarrow> ten_digit_rule s"
  by (simp add: ten_digit_rule_def Phone_validate_v1_iff list_all_iff isdigit_char_ascii)

lemma Phone_on_ascii:
  assumes "list_all ascii_char s"
  shows "Phone_v1 s = (if ten_digit_rule s then Inr s else Inl (ValueError phone_format_msg_v1))"
    and "Phone_main s =
      (if ten_digit_rule s then Inr s else Inl (ValueError phone_format_msg_main))"
  using assms ten_digit_rule_accepted [of s] accepted_ascii [of s]
  by (auto simp: Phone_v1_check Phone_main_check)

text \<open>
  C3 (code defect). A Phone is to be constructed exactly from the strings of ten decimal
  digits. Both constructors test the characters with \<^verbatim>\<open>str.isdigit\<close>, which is also true
  of the superscripts two, three and one: the string of ten superscript twos has length
  10, holds no decimal digit, and both constructors accept and store it, where their
  messages ask for 10 digits.
\<close>

theorem Phone_accepts_superscript_digits:
  "Phone_v1 ten_superscripts = Inr ten_superscripts
   \<and> Phone_main ten_superscripts = Inr ten_superscripts
   \<and> length ten_superscripts = 10
   \<and> \<not> decimal_digit (CHR 0xB2)
   \<and> \<not> ten_digit_rule ten_superscripts"
  by code_simp

theorem Phone_accepts_superscript_digits_witness:
  "add_phone_v1 ten_superscripts (Record_v1 ''Ann'')
     = (Inr (), \<lparr>name = ''Ann'', phones = [ten_superscripts], birthday = None\<rparr>)
   \<and> add_phone_main ten_superscripts (Record_v1 ''Ann'')
     = (Inr (), \<lparr>name = ''Ann'', phones = [ten_superscripts], birthday = None\<rparr>)"
  using Phone_accepts_superscript_digits
  by (simp add: add_phone_v1_def add_phone_main_def Record_v1_def)

subsection \<open>Parsing a date and constructing a Birthday\<close>

lemma nonzero_digit_facts:
  "nonzero_digit c \<Longrightarrow> decimal_digit c"
  "nonzero_digit c \<Longrightarrow> c \<noteq> CHR ''0''"
  "decimal_digit c \<Longrightarrow> c \<noteq> CHR ''.''"
  "decimal_digit c \<Longrightarrow> c \<noteq> CHR '' ''"
  by (auto simp: nonzero_digit_def decimal_digit_def)

lemma re_fold: "c \<in> set ''123456789'' \<longleftrightarrow> nonzero_digit c"
  by (simp add: nonzero_digit_def)

lemma char_class_consts:
  "decimal_digit CHR ''0''" "decimal_digit CHR ''1''" "decimal_digit CHR ''2''"
  "decimal_digit CHR ''3''" "\<not> decimal_digit CHR '' ''" "\<not> decimal_digit CHR ''.''"
  "nonzero_digit CHR ''3''" "nonzero_digit CHR ''1''" "nonzero_digit CHR ''2''"
  "\<not> nonzero_digit CHR ''0''" "\<not> nonzero_digit CHR '' ''" "\<not> nonzero_digit CHR ''.''"
  by (simp_all add: decimal_digit_def nonzero_digit_def)

lemma re_d_sound: "(t, r) \<in> set (re_d s) \<Longrightarrow> s = t @ r \<and> day_text t"
  unfolding re_d_def re_fold re_digit_iff
  by (cases s rule: remdups_adj.cases)
     (auto simp: char_class_consts split: if_splits)

lemma re_d_complete: "day_text t \<Longrightarrow> (t, r) \<in> set (re_d (t @ r))"
  unfolding re_d_def re_fold re_digit_iff
  by (cases t rule: day_text.cases; cases r)
     (auto simp: char_class_consts dest: nonzero_digit_facts)

lemma re_m_sound: "(t, r) \<in> set (re_m s) \<Longrightarrow> s = t @ r \<and> month_text t"
  unfolding re_m_def re_fold re_digit_iff
  by (cases s rule: remdups_adj.cases)
     (auto simp: char_class_consts split: if_splits)

lemma re_m_complete: "month_text t \<Longrightarrow> (t, r) \<in> set (re_m (t @ r))"
  unfolding re_m_def re_fold re_digit_iff
  by (cases t rule: month_text.cases; cases r)
     (auto simp: char_class_consts dest: nonzero_digit_facts)

lemma year_text_iff: "year_text t \<longleftrightarrow> (\<exists>a b c d. t = [a, b, c, d] \<and> decimal_digit a \<and> decimal_digit b \<and> decimal_digit c \<and> decimal_digit d)"
  by (auto simp: year_text_def length_Suc_conv eval_nat_numeral)

lemma re_Y_iff: "(t, r) \<in> set (re_Y s) \<longleftrightarrow> s = t @ r \<and> year_text t"
  unfolding re_Y_def re_digit_iff year_text_iff
  by (auto split: list.splits)

lemma re_dot_iff: "r \<in> set (re_dot s) \<longleftrightarrow> s = CHR ''.'' # r"
  by (auto simp: re_dot_def split: list.splits)

lemma no_dot:
  "day_text t \<Longrightarrow> CHR ''.'' \<notin> set t"
  "month_text t \<Longrightarrow> CHR ''.'' \<notin> set t"
  by (cases t rule: day_text.cases; auto simp: char_class_consts dest: nonzero_digit_facts)+

lemma strptime_matches_mem:
  "((ds, ms, ys), r) \<in> set (strptime_matches s) \<longleftrightarrow>
     (\<exists>r1 r2 r3 r4. (ds, r1) \<in> set (re_d s) \<and> r2 \<in> set (re_dot r1) \<and>
        (ms, r3) \<in> set (re_m r2) \<and> r4 \<in> set (re_dot r3) \<and> (ys, r) \<in> set (re_Y r4))"
  (is "?L \<longleftrightarrow> ?R")
proof
  assume ?L
  then show ?R by (auto simp: strptime_matches_def)
next
  assume ?R
  then obtain r1 r2 r3 r4 where
    h: "(ds, r1) \<in> set (re_d s)" "r2 \<in> set (re_dot r1)" "(ms, r3) \<in> set (re_m r2)"
    "r4 \<in> set (re_dot r3)" "(ys, r) \<in> set (re_Y r4)"
    by blast
  have I: "x \<in> set (concat (map f xs))" if "y \<in> set xs" "x \<in> set (f y)"
    for x :: 'a and f :: "'b \<Rightarrow> 'a list" and xs y
    using that by auto
  have "((ds, ms, ys), r) \<in> set (map (\<lambda>(y, r5). ((ds, ms, y), r5)) (re_Y r4))"
    using h(5) by force
  then show ?L
    unfolding strptime_matches_def
    apply -
    apply (rule I [OF h(1)], simp only: prod.case)
    apply (rule I [OF h(2)])
    apply (rule I [OF h(3)], simp only: prod.case)
    apply (rule I [OF h(4)])
    apply assumption
    done
qed

lemma strptime_matches_iff:
  "((ds, ms, ys), r) \<in> set (strptime_matches s) \<longleftrightarrow>
     s = ds @ ''.'' @ ms @ ''.'' @ ys @ r \<and> day_text ds \<and> month_text ms \<and> year_text ys"
  (is "?L \<longleftrightarrow> ?R")
proof
  assume ?L
  then obtain r1 r2 r3 r4 where
    "(ds, r1) \<in> set (re_d s)" "r2 \<in> set (re_dot r1)" "(ms, r3) \<in> set (re_m r2)"
    "r4 \<in> set (re_dot r3)" "(ys, r) \<in> set (re_Y r4)"
    unfolding strptime_matches_mem by blast
  then show ?R
    by (auto simp: re_Y_iff re_dot_iff dest!: re_d_sound re_m_sound)
next
  assume r: ?R
  let ?r4 = "ys @ r" and ?r2 = "ms @ CHR ''.'' # ys @ r"
  from r have "(ds, CHR ''.'' # ?r2) \<in> set (re_d s)"
    using re_d_complete [of ds "CHR ''.'' # ?r2"] by simp
  moreover have "?r2 \<in> set (re_dot (CHR ''.'' # ?r2))"
    by (simp add: re_dot_iff)
  moreover from r have "(ms, CHR ''.'' # ?r4) \<in> set (re_m ?r2)"
    using re_m_complete [of ms "CHR ''.'' # ?r4"] by simp
  moreover have "?r4 \<in> set (re_dot (CHR ''.'' # ?r4))"
    by (simp add: re_dot_iff)
  moreover from r have "(ys, r) \<in> set (re_Y ?r4)"
    by (simp add: re_Y_iff)
  ultimately show ?L
    unfolding strptime_matches_mem by blast
qed

lemma strptime_matches_unique:
  assumes "x \<in> set (strptime_matches s)" "x' \<in> set (strptime_matches s)"
  shows "x = x'"
proof -
  obtain ds ms ys r where x: "x = ((ds, ms, ys), r)" by (cases x) auto
  obtain ds' ms' ys' r' where x': "x' = ((ds', ms', ys'), r')" by (cases x') auto
  from assms x x' have
    a: "s = ds @ CHR ''.'' # ms @ CHR ''.'' # ys @ r" "day_text ds" "month_text ms" "year_text ys"
    and b: "s = ds' @ CHR ''.'' # ms' @ CHR ''.'' # ys' @ r'" "day_text ds'" "month_text ms'"
      "year_text ys'"
    by (simp_all add: strptime_matches_iff)
  have split: "xs = xs' \<and> zs = zs'"
    if "xs @ CHR ''.'' # zs = xs' @ CHR ''.'' # zs'" "CHR ''.'' \<notin> set xs" "CHR ''.'' \<notin> set xs'"
    for xs xs' zs zs' :: string
    using that
  proof (induction xs arbitrary: xs')
    case Nil
    then show ?case by (cases xs') auto
  next
    case (Cons c cs)
    then show ?case by (cases xs') auto
  qed
  from a(1) b(1)
  have "ds @ CHR ''.'' # (ms @ CHR ''.'' # ys @ r) = ds' @ CHR ''.'' # (ms' @ CHR ''.'' # ys' @ r')"
    by simp
  from split [OF this no_dot(1) [OF a(2)] no_dot(1) [OF b(2)]]
  have 1: "ds = ds'" "ms @ CHR ''.'' # (ys @ r) = ms' @ CHR ''.'' # (ys' @ r')"
    by simp_all
  from split [OF 1(2) no_dot(2) [OF a(3)] no_dot(2) [OF b(3)]]
  have 2: "ms = ms'" "ys @ r = ys' @ r'"
    by simp_all
  with a(4) b(4) have 3: "ys = ys'" "r = r'"
    by (simp_all add: year_text_def)
  from 1 2 3 x x' show ?thesis by simp
qed

lemma strptime_iff:
  "strptime s = Inr dt \<longleftrightarrow>
     (\<exists>ds ms ys. s = ds @ ''.'' @ ms @ ''.'' @ ys \<and> day_text ds \<and> month_text ms \<and> year_text ys
        \<and> date_new (py_int ys) (py_int ms) (py_int ds) = Inr dt)"
  (is "?L \<longleftrightarrow> ?R")
proof
  assume l: ?L
  then obtain ds ms ys rest tl where m: "strptime_matches s = ((ds, ms, ys), rest) # tl"
    by (cases "strptime_matches s") (auto simp: strptime_def)
  with l have "rest = []" "date_new (py_int ys) (py_int ms) (py_int ds) = Inr dt"
    by (auto simp: strptime_def split: if_splits)
  moreover from m have "((ds, ms, ys), rest) \<in> set (strptime_matches s)" by simp
  ultimately show ?R by (auto simp: strptime_matches_iff)
next
  assume ?R
  then obtain ds ms ys where
    r: "((ds, ms, ys), []) \<in> set (strptime_matches s)"
      "date_new (py_int ys) (py_int ms) (py_int ds) = Inr dt"
    by (auto simp: strptime_matches_iff)
  then obtain h tl where m: "strptime_matches s = h # tl"
    by (cases "strptime_matches s") auto
  then have "h \<in> set (strptime_matches s)" by simp
  with r(1) have "h = ((ds, ms, ys), [])" by (rule strptime_matches_unique [symmetric])
  with m r(2) show ?L by (simp add: strptime_def)
qed

lemma strptime_error: "strptime s = Inl e \<Longrightarrow> \<exists>m. e = ValueError m"
  by (auto simp: strptime_def date_new_def split: list.splits if_splits prod.splits)

lemma date_new_iff: "date_new y m d = Inr dt \<longleftrightarrow> real_date y m d \<and> dt = \<lparr>year = y, month = m, day = d\<rparr>"
  by (auto simp: date_new_def real_date_def MINYEAR_def MAXYEAR_def)

lemma Birthday_of_strptime:
  "Birthday_v1 s =
     (if \<exists>dt. strptime s = Inr dt then Inr s else Inl (ValueError date_format_msg_v1))"
  "Birthday_main s =
     (if \<exists>dt. strptime s = Inr dt then Inr s else Inl (ValueError date_format_msg_main))"
  by (auto simp: Birthday_v1_def Birthday_validate_v1_def Birthday_main_def split: sum.splits)

lemma strptime_accepts_iff:
  "(\<exists>dt. strptime s = Inr dt) \<longleftrightarrow>
     (\<exists>ds ms ys. s = ds @ ''.'' @ ms @ ''.'' @ ys \<and> day_text ds \<and> month_text ms \<and> year_text ys
        \<and> real_date (py_int ys) (py_int ms) (py_int ds))"
  by (simp add: strptime_iff date_new_iff)

text \<open>
  What the constructors accept, among the strings of the model (characters below
  U+0100): a day text, a dot, a month text, a dot and a four-digit year with nothing
  after it, the three numbers being a real calendar date. A day text and a month text
  may have one digit only, and a day text may begin with a blank. Every other string,
  an impossible date such as \<open>31.02.2024\<close> among them, is refused with the validation
  error.
\<close>

lemma Birthday_accepts_iff:
  "Birthday_v1 s =
     (if \<exists>ds ms ys. s = ds @ ''.'' @ ms @ ''.'' @ ys \<and> day_text ds \<and> month_text ms
           \<and> year_text ys \<and> real_date (py_int ys) (py_int ms) (py_int ds)
      then Inr s else Inl (ValueError date_format_msg_v1))
   \<and> Birthday_main s =
     (if \<exists>ds ms ys. s = ds @ ''.'' @ ms @ ''.'' @ ys \<and> day_text ds \<and> month_text ms
           \<and> year_text ys \<and> real_date (py_int ys) (py_int ms) (py_int ds)
      then Inr s else Inl (ValueError date_format_msg_main))"
  unfolding Birthday_of_strptime strptime_accepts_iff by simp

lemma Birthday_accepts_iff_examples:
  "Birthday_v1 ''15.06.1990'' = Inr ''15.06.1990''
   \<and> Birthday_main '' 5.1.2000'' = Inr '' 5.1.2000''
   \<and> Birthday_v1 ''31.02.2024'' = Inl (ValueError date_format_msg_v1)
   \<and> Birthday_main ''1990-06-15'' = Inl (ValueError date_format_msg_main)"
proof -
  have 1: "\<exists>ds ms ys. ''15.06.1990'' = ds @ ''.'' @ ms @ ''.'' @ ys \<and> day_text ds \<and> month_text ms
           \<and> year_text ys \<and> real_date (py_int ys) (py_int ms) (py_int ds)"
    by (rule exI [of _ "''15''"], rule exI [of _ "''06''"], rule exI [of _ "''1990''"]) code_simp
  have 2: "\<exists>ds ms ys. '' 5.1.2000'' = ds @ ''.'' @ ms @ ''.'' @ ys \<and> day_text ds \<and> month_text ms
           \<and> year_text ys \<and> real_date (py_int ys) (py_int ms) (py_int ds)"
    by (rule exI [of _ "'' 5''"], rule exI [of _ "''1''"], rule exI [of _ "''2000''"]) code_simp
  have 3: "Birthday_v1 ''31.02.2024'' = Inl (ValueError date_format_msg_v1)"
    "Birthday_main ''1990-06-15'' = Inl (ValueError date_format_msg_main)"
    by code_simp+
  from 1 2 3 Birthday_accepts_iff [of "''15.06.1990''"] Birthday_accepts_iff [of "'' 5.1.2000''"]
  show ?thesis by simp
qed

text \<open>
  C4 (code defect). A Birthday is to be constructed exactly from the strings of the
  pattern of two digits, a dot, two digits, a dot and four digits that are a real
  calendar date; the messages of both constructors and the documentation of the one of
  \<^verbatim>\<open>main.py\<close> name the format \<open>DD.MM.YYYY\<close>. Both constructors leave the decision to
  \<^verbatim>\<open>strptime\<close>, which also takes a day and a month of one digit and a blank before the
  day: \<open>1.2.2024\<close> and \<open>5.1.2000\<close> after a blank are not of the pattern, and both
  constructors accept and store them as they are.
\<close>

theorem Birthday_accepts_short_day_and_month:
  "Birthday_v1 ''1.2.2024'' = Inr ''1.2.2024'' \<and> Birthday_main ''1.2.2024'' = Inr ''1.2.2024''
   \<and> \<not> strict_ddmmyyyy ''1.2.2024''
   \<and> Birthday_v1 '' 5.1.2000'' = Inr '' 5.1.2000''
   \<and> Birthday_main '' 5.1.2000'' = Inr '' 5.1.2000''
   \<and> \<not> strict_ddmmyyyy '' 5.1.2000''"
  by code_simp

theorem Birthday_accepts_short_day_and_month_witness:
  "add_birthday_v1 ''1.2.2024'' (Record_v1 ''Ann'')
     = (Inr (), \<lparr>name = ''Ann'', phones = [], birthday = Some ''1.2.2024''\<rparr>)
   \<and> add_birthday_v1 '' 5.1.2000'' (Record_v1 ''Ann'')
     = (Inr (), \<lparr>name = ''Ann'', phones = [], birthday = Some '' 5.1.2000''\<rparr>)"
  using Birthday_accepts_short_day_and_month
  by (simp add: add_birthday_v1_def Record_v1_def)

subsection \<open>Dictionaries\<close>

lemma dict_set_same: "map_of d k = Some v \<Longrightarrow> dict_set k v d = d"
  by (induction d) (auto split: if_splits)

lemma dict_set_absent: "k \<notin> set (map fst d) \<Longrightarrow> dict_set k v d = d @ [(k, v)]"
  by (induction d) auto

lemma map_of_dict_set: "map_of (dict_set k v d) = (map_of d)(k \<mapsto> v)"
  by (induction d) (auto simp: fun_eq_iff)

lemma map_of_dict_del: "map_of (dict_del k d) = (map_of d)(k := None)"
  by (induction d) (auto simp: dict_del_def fun_eq_iff)

lemma dict_contains_del: "\<not> dict_contains (dict_del k d) k"
  by (auto simp: dict_contains_def dict_del_def)

lemma dict_contains_iff: "dict_contains d k \<longleftrightarrow> map_of d k \<noteq> None"
  by (simp add: dict_contains_def map_of_eq_None_iff)

subsection \<open>The phone loops\<close>

declare remove_phone_loop_v1.simps [simp del]

lemma edit_phone_loop_main_absent:
  "old \<notin> set ps \<Longrightarrow>
   edit_phone_loop_main old new ps = (Inl (ValueError old_phone_not_found_msg_main), ps)"
  by (induction ps) auto

lemma edit_phone_loop_main_present:
  "old \<in> set ps \<Longrightarrow> edit_phone_loop_main old new ps =
     (if Phone_validate_v1 new
      then (Inr (), takeWhile (\<lambda>p. p \<noteq> old) ps @ new # tl (dropWhile (\<lambda>p. p \<noteq> old) ps))
      else (Inl (ValueError phone_format_msg_main), ps))"
  by (induction ps) (auto simp: Phone_main_check)

lemma edit_phone_loop_v1_absent:
  "old \<notin> set ps \<Longrightarrow>
   edit_phone_loop_v1 old new ps = (Inl (ValueError phone_not_found_msg_v1), ps)"
  by (induction ps) auto

lemma edit_phone_loop_v1_present:
  "old \<in> set ps \<Longrightarrow> edit_phone_loop_v1 old new ps =
     (Inr (), takeWhile (\<lambda>p. p \<noteq> old) ps @ new # tl (dropWhile (\<lambda>p. p \<noteq> old) ps))"
  by (induction ps) auto

lemma remove_phone_loop_main_absent:
  "p \<notin> set ps \<Longrightarrow>
   remove_phone_loop_main p ps = (Inl (ValueError phone_not_found_msg_main), ps)"
  by (induction ps) auto

lemma remove_phone_loop_main_present:
  "p \<in> set ps \<Longrightarrow> remove_phone_loop_main p ps = (Inr (), remove1 p ps)"
  by (induction ps) auto

lemma skip_remove_Cons:
  "skip_remove p (x # xs) =
     (if x = p then (case xs of [] \<Rightarrow> [] | y # ys \<Rightarrow> y # skip_remove p ys)
      else x # skip_remove p xs)"
  by (cases xs) auto

text \<open>The index loop of \<^verbatim>\<open>1.py\<close>, started anywhere in the list, is \<open>skip_remove\<close> on the rest.\<close>

lemma remove_phone_loop_v1_skip:
  "i \<le> length ps \<Longrightarrow> remove_phone_loop_v1 p i ps = take i ps @ skip_remove p (drop i ps)"
proof (induction p i ps rule: remove_phone_loop_v1.induct)
  case (1 p i ps)
  show ?case
  proof (cases "i < length ps")
    case False
    with "1.prems" have "i = length ps" by simp
    then show ?thesis
      by (subst remove_phone_loop_v1.simps) simp
  next
    case True
    then have d: "drop i ps = ps ! i # drop (Suc i) ps"
      by (simp add: Cons_nth_drop_Suc)
    show ?thesis
    proof (cases "ps ! i = p")
      case False
      have "remove_phone_loop_v1 p i ps = remove_phone_loop_v1 p (Suc i) ps"
        using True False by (subst remove_phone_loop_v1.simps) simp
      also have "\<dots> = take (Suc i) ps @ skip_remove p (drop (Suc i) ps)"
        using "1.IH"(2) True False by simp
      also have "\<dots> = take i ps @ skip_remove p (drop i ps)"
        using True False by (simp add: d skip_remove_Cons take_Suc_conv_app_nth)
      finally show ?thesis .
    next
      case eq: True
      let ?qs = "remove_at i ps"
      have len: "Suc i \<le> length ?qs \<or> drop (Suc i) ps = []"
        using True by (auto simp: remove_at_def)
      have tk: "take i ?qs = take i ps" and dr: "drop i ?qs = drop (Suc i) ps"
        using True by (simp_all add: remove_at_def)
      have "remove_phone_loop_v1 p i ps = remove_phone_loop_v1 p (Suc i) ?qs"
        using True eq by (subst remove_phone_loop_v1.simps) simp
      also have "\<dots> = take i ps @ skip_remove p (drop i ps)"
      proof (cases "drop (Suc i) ps")
        case Nil
        then have "?qs = take i ps" by (simp add: remove_at_def)
        moreover have "remove_phone_loop_v1 p (Suc i) (take i ps) = take i ps"
          by (subst remove_phone_loop_v1.simps) simp
        ultimately show ?thesis using eq Nil by (simp add: d)
      next
        case (Cons y ys)
        then have le: "Suc i \<le> length ?qs" using len by auto
        have "remove_phone_loop_v1 p (Suc i) ?qs =
            take (Suc i) ?qs @ skip_remove p (drop (Suc i) ?qs)"
          using "1.IH"(1) True eq le by simp
        moreover have "take (Suc i) ?qs = take i ps @ [y]"
          using tk dr Cons le
          by (metis Suc_le_lessD hd_drop_conv_nth list.sel(1) take_Suc_conv_app_nth)
        moreover have "drop (Suc i) ?qs = ys"
          using dr Cons by (metis drop_Suc list.sel(3) tl_drop)
        ultimately show ?thesis using eq Cons by (simp add: d)
      qed
      finally show ?thesis .
    qed
  qed
qed

lemma skip_remove_absent: "p \<notin> set ps \<Longrightarrow> skip_remove p ps = ps"
  by (induction p ps rule: skip_remove.induct) auto

lemma skip_remove_once: "count_list ps p = 1 \<Longrightarrow> skip_remove p ps = remove1 p ps"
proof (induction p ps rule: skip_remove.induct)
  case (3 p x y ys)
  show ?case
  proof (cases "x = p")
    case True
    with 3 have "count_list (y # ys) p = 0" by simp
    then have "p \<notin> set (y # ys)" by (simp only: count_list_0_iff not_False_eq_True)
    then show ?thesis using True by (simp add: skip_remove_absent)
  next
    case False
    with 3 show ?thesis by simp
  qed
qed (auto split: if_splits)

lemma remove_phone_v1_eq:
  "remove_phone_v1 p r = (Inr (), r\<lparr>phones := skip_remove p (phones r)\<rparr>)"
  by (simp add: remove_phone_v1_def remove_phone_loop_v1_skip)

subsection \<open>Removing a phone\<close>

text \<open>
  C6 (amended). In \<^verbatim>\<open>main.py\<close>, \<open>remove_phone p\<close> removes exactly the first phone equal
  to \<open>p\<close> and keeps every other phone, later copies of \<open>p\<close> included, in place and in
  order; when no phone equals \<open>p\<close> it raises the not-found \<^verbatim>\<open>ValueError\<close> and the record
  is unchanged. In \<^verbatim>\<open>1.py\<close>, \<open>remove_phone p\<close> never raises: when no phone equals \<open>p\<close> it
  returns with the record unchanged, and when exactly one phone equals \<open>p\<close> it removes
  that phone and keeps the others in order.
\<close>

theorem remove_phone_first_match:
  "(p \<notin> set (phones r) \<longrightarrow>
      remove_phone_main p r = (Inl (ValueError phone_not_found_msg_main), r))
   \<and> (p \<in> set (phones r) \<longrightarrow>
      remove_phone_main p r = (Inr (), r\<lparr>phones := remove1 p (phones r)\<rparr>))
   \<and> fst (remove_phone_v1 p r) = Inr ()
   \<and> (p \<notin> set (phones r) \<longrightarrow> remove_phone_v1 p r = (Inr (), r))
   \<and> (count_list (phones r) p = 1 \<longrightarrow>
      remove_phone_v1 p r = (Inr (), r\<lparr>phones := remove1 p (phones r)\<rparr>))"
  by (simp add: remove_phone_main_def remove_phone_loop_main_absent
      remove_phone_loop_main_present remove_phone_v1_eq skip_remove_absent skip_remove_once)

theorem remove_phone_first_match_witness:
  "remove_phone_main ''0000000000''
      \<lparr>name = ''Bob'', phones = [''1112223330'', ''0501234567''], birthday = None\<rparr>
     = (Inl (ValueError phone_not_found_msg_main),
        \<lparr>name = ''Bob'', phones = [''1112223330'', ''0501234567''], birthday = None\<rparr>)
   \<and> remove_phone_main ''1112223330''
      \<lparr>name = ''Bob'', phones = [''0501234567'', ''1112223330'', ''1112223330''],
        birthday = None\<rparr>
     = (Inr (), \<lparr>name = ''Bob'', phones = [''0501234567'', ''1112223330''], birthday = None\<rparr>)
   \<and> remove_phone_v1 ''0000000000''
      \<lparr>name = ''Bob'', phones = [''1112223330'', ''0501234567''], birthday = None\<rparr>
     = (Inr (), \<lparr>name = ''Bob'', phones = [''1112223330'', ''0501234567''], birthday = None\<rparr>)
   \<and> remove_phone_v1 ''0501234567''
      \<lparr>name = ''Bob'', phones = [''1112223330'', ''0501234567''], birthday = None\<rparr>
     = (Inr (), \<lparr>name = ''Bob'', phones = [''1112223330''], birthday = None\<rparr>)"
  using
    remove_phone_first_match [of "''0000000000''"
      "\<lparr>name = ''Bob'', phones = [''1112223330'', ''0501234567''], birthday = None\<rparr>"]
    remove_phone_first_match [of "''1112223330''"
      "\<lparr>name = ''Bob'', phones = [''0501234567'', ''1112223330'', ''1112223330''],
        birthday = None\<rparr>"]
    remove_phone_first_match [of "''0501234567''"
      "\<lparr>name = ''Bob'', phones = [''1112223330'', ''0501234567''], birthday = None\<rparr>"]
  by simp

text \<open>
  The claim as stated fails in \<^verbatim>\<open>1.py\<close>: removing a number the record does not hold
  returns normally instead of raising.
\<close>

theorem remove_phone_v1_missing_returns:
  "remove_phone_v1 ''0000000000''
      \<lparr>name = ''Bob'', phones = [''1112223330''], birthday = None\<rparr>
     = (Inr (), \<lparr>name = ''Bob'', phones = [''1112223330''], birthday = None\<rparr>)"
  by (simp add: remove_phone_v1_eq)

text \<open>
  With the same number at several positions the loop of \<^verbatim>\<open>1.py\<close>, which keeps iterating
  over the list it shortens, removes more than the first copy.
\<close>

lemma remove_phone_v1_duplicates:
  "remove_phone_v1 ''1112223330''
      \<lparr>name = ''Bob'', phones = [''1112223330'', ''0501234567'', ''1112223330''],
        birthday = None\<rparr>
     = (Inr (), \<lparr>name = ''Bob'', phones = [''0501234567''], birthday = None\<rparr>)"
  by (simp add: remove_phone_v1_eq)

subsection \<open>Deleting a record\<close>

text \<open>
  C7 (amended). For a name present in the book: after the delete, the lookup returns
  \<^verbatim>\<open>None\<close> (no error) in both files. A second delete of the now absent name raises the
  not-found \<^verbatim>\<open>ValueError\<close> in \<^verbatim>\<open>main.py\<close> (\<open>delete_record\<close>); in \<^verbatim>\<open>1.py\<close> (\<open>delete\<close>),
  whose guard skips an absent name, it returns normally and leaves the book as it is.
\<close>

theorem delete_then_find_then_delete:
  assumes "dict_contains book nm"
  shows "delete_record_main nm book = (Inr (), dict_del nm book)
    \<and> search_record_main nm (dict_del nm book) = None
    \<and> delete_record_main nm (dict_del nm book)
        = (Inl (ValueError contact_not_found_msg_main), dict_del nm book)
    \<and> delete_v1 nm book = (Inr (), dict_del nm book)
    \<and> find_v1 nm (dict_del nm book) = None
    \<and> delete_v1 nm (dict_del nm book) = (Inr (), dict_del nm book)"
  using assms
  by (simp add: delete_record_main_def search_record_main_def delete_v1_def find_v1_def
      dict_get_def map_of_dict_del dict_contains_del)

theorem delete_then_find_then_delete_witness:
  "dict_contains [(''Ann'', Record_v1 ''Ann''), (''Bob'', Record_v1 ''Bob'')] ''Ann''
   \<and> delete_record_main ''Ann'' [(''Ann'', Record_v1 ''Ann''), (''Bob'', Record_v1 ''Bob'')]
       = (Inr (), [(''Bob'', Record_v1 ''Bob'')])
   \<and> search_record_main ''Ann'' [(''Bob'', Record_v1 ''Bob'')] = None
   \<and> delete_record_main ''Ann'' [(''Bob'', Record_v1 ''Bob'')]
       = (Inl (ValueError contact_not_found_msg_main), [(''Bob'', Record_v1 ''Bob'')])
   \<and> delete_v1 ''Ann'' [(''Ann'', Record_v1 ''Ann''), (''Bob'', Record_v1 ''Bob'')]
       = (Inr (), [(''Bob'', Record_v1 ''Bob'')])
   \<and> find_v1 ''Ann'' [(''Bob'', Record_v1 ''Bob'')] = None
   \<and> delete_v1 ''Ann'' [(''Bob'', Record_v1 ''Bob'')] = (Inr (), [(''Bob'', Record_v1 ''Bob'')])"
proof -
  have h: "dict_contains [(''Ann'', Record_v1 ''Ann''), (''Bob'', Record_v1 ''Bob'')] ''Ann''"
    by (simp add: dict_contains_def)
  show ?thesis
    using h delete_then_find_then_delete [OF h] by (simp add: dict_del_def)
qed

text \<open>
  The claim as stated fails in \<^verbatim>\<open>1.py\<close>: the second delete of a name returns normally.
\<close>

theorem delete_v1_twice_returns:
  "delete_v1 ''Ann'' (snd (delete_v1 ''Ann'' [(''Ann'', Record_v1 ''Ann'')])) = (Inr (), [])"
  by (simp add: delete_v1_def dict_contains_def dict_del_def)

subsection \<open>A failed call changes nothing\<close>

lemma edit_phone_loop_main_error:
  "fst (edit_phone_loop_main old new ps) = Inl e \<Longrightarrow>
   snd (edit_phone_loop_main old new ps) = ps"
  by (induction ps) (auto split: if_splits sum.splits prod.splits)

lemma edit_phone_loop_v1_error:
  "fst (edit_phone_loop_v1 old new ps) = Inl e \<Longrightarrow> snd (edit_phone_loop_v1 old new ps) = ps"
  by (induction ps) (auto split: if_splits sum.splits prod.splits)

lemma remove_phone_loop_main_error:
  "fst (remove_phone_loop_main p ps) = Inl e \<Longrightarrow> snd (remove_phone_loop_main p ps) = ps"
  by (induction ps) (auto split: if_splits sum.splits prod.splits)

lemma add_phone_v1_cases:
  "add_phone_v1 p r =
     (if Phone_validate_v1 p then (Inr (), r\<lparr>phones := phones r @ [p]\<rparr>)
      else (Inl (ValueError phone_format_msg_v1), r))"
  by (simp add: add_phone_v1_def Phone_v1_check)

lemma add_phone_main_cases:
  "add_phone_main p r =
     (if Phone_validate_v1 p then (Inr (), r\<lparr>phones := phones r @ [p]\<rparr>)
      else (Inl (ValueError phone_format_msg_main), r))"
  by (simp add: add_phone_main_def Phone_main_check)

lemma edit_phone_main_error:
  "fst (edit_phone_main old new r) = Inl e \<Longrightarrow> snd (edit_phone_main old new r) = r"
  using edit_phone_loop_main_error [of old new "phones r" e]
  by (auto simp: edit_phone_main_def split: prod.splits)

lemma edit_phone_v1_error:
  "fst (edit_phone_v1 old new r) = Inl e \<Longrightarrow> snd (edit_phone_v1 old new r) = r"
  using edit_phone_loop_v1_error [of old new "phones r" e]
  by (auto simp: edit_phone_v1_def split: prod.splits)

lemma remove_phone_main_error:
  "fst (remove_phone_main p r) = Inl e \<Longrightarrow> snd (remove_phone_main p r) = r"
  using remove_phone_loop_main_error [of p "phones r" e]
  by (auto simp: remove_phone_main_def split: prod.splits)

lemma add_birthday_v1_error:
  "fst (add_birthday_v1 b r) = Inl e \<Longrightarrow> snd (add_birthday_v1 b r) = r"
  by (auto simp: add_birthday_v1_def split: sum.splits)

lemma create_record_main_error:
  "fst (create_record_main nm ph bd book) = Inl e \<Longrightarrow>
   snd (create_record_main nm ph bd book) = book"
  by (auto simp: create_record_main_def add_record_main_def
      split: sum.splits prod.splits if_splits)

lemma add_contact_body_error:
  "fst (add_contact_body args book) = Inl e \<Longrightarrow> snd (add_contact_body args book) = book"
  by (cases "find_v1 (args ! 0) book")
    (auto simp: add_contact_body_def Let_def add_phone_v1_cases find_v1_def dict_get_def
      add_record_v1_def dict_set_same split: if_splits)

lemma add_contact_snd: "snd (add_contact args book) = snd (add_contact_body args book)"
  by (simp add: add_contact_def split: prod.splits)


lemma add_phone_v1_error: "fst (add_phone_v1 p r) = Inl e \<Longrightarrow> snd (add_phone_v1 p r) = r"
  by (simp add: add_phone_v1_cases split: if_splits)

lemma add_phone_main_error:
  "fst (add_phone_main p r) = Inl e \<Longrightarrow> snd (add_phone_main p r) = r"
  by (simp add: add_phone_main_cases split: if_splits)

text \<open>
  C8. When a core operation raises, the record or the book it was called on is left as
  it was before the call. This covers every exception of these operations, the
  validation errors among them: adding a phone (both files), editing a phone (both
  files), setting the birthday (\<^verbatim>\<open>1.py\<close>), creating a record with a birthday and a phone
  through the menu of \<^verbatim>\<open>main.py\<close>, and the \<^verbatim>\<open>add\<close> command of \<^verbatim>\<open>1.py\<close>, whose book is
  the same after the wrapper has turned the exception into a message.
\<close>

theorem error_leaves_state_unchanged:
  "(fst (add_phone_v1 p r) = Inl e \<longrightarrow> snd (add_phone_v1 p r) = r)
   \<and> (fst (add_phone_main p r) = Inl e \<longrightarrow> snd (add_phone_main p r) = r)
   \<and> (fst (edit_phone_v1 old new r) = Inl e \<longrightarrow> snd (edit_phone_v1 old new r) = r)
   \<and> (fst (edit_phone_main old new r) = Inl e \<longrightarrow> snd (edit_phone_main old new r) = r)
   \<and> (fst (add_birthday_v1 b r) = Inl e \<longrightarrow> snd (add_birthday_v1 b r) = r)
   \<and> (fst (create_record_main nm p b book) = Inl e \<longrightarrow>
        snd (create_record_main nm p b book) = book)
   \<and> (fst (add_contact_body args book) = Inl e \<longrightarrow>
        snd (add_contact_body args book) = book \<and> snd (add_contact args book) = book)"
  using add_phone_v1_error [of p r e] add_phone_main_error [of p r e]
    edit_phone_v1_error [of old new r e] edit_phone_main_error [of old new r e]
    add_birthday_v1_error [of b r e] create_record_main_error [of nm p b book e]
    add_contact_body_error [of args book e]
  by (simp add: add_contact_snd)


theorem error_leaves_state_unchanged_witness:
  "fst (add_phone_v1 ''12'' bob) = Inl (ValueError phone_format_msg_v1)
   \<and> snd (add_phone_v1 ''12'' bob) = bob
   \<and> fst (add_phone_main ''12'' bob) = Inl (ValueError phone_format_msg_main)
   \<and> snd (add_phone_main ''12'' bob) = bob
   \<and> fst (edit_phone_v1 ''0000000000'' ''0501234567'' bob)
       = Inl (ValueError phone_not_found_msg_v1)
   \<and> snd (edit_phone_v1 ''0000000000'' ''0501234567'' bob) = bob
   \<and> fst (edit_phone_main ''1112223330'' ''12'' bob) = Inl (ValueError phone_format_msg_main)
   \<and> snd (edit_phone_main ''1112223330'' ''12'' bob) = bob
   \<and> fst (add_birthday_v1 ''31.02.2024'' bob) = Inl (ValueError date_format_msg_v1)
   \<and> snd (add_birthday_v1 ''31.02.2024'' bob) = bob
   \<and> fst (create_record_main ''Ann'' ''0501234567'' ''2024-01-01'' book_bob)
       = Inl (ValueError date_format_msg_main)
   \<and> snd (create_record_main ''Ann'' ''0501234567'' ''2024-01-01'' book_bob) = book_bob
   \<and> fst (add_contact_body [''Bob'', ''12''] book_bob) = Inl (ValueError phone_format_msg_v1)
   \<and> add_contact [''Bob'', ''12''] book_bob = (phone_format_msg_v1, book_bob)"
proof -
  have e1: "fst (add_phone_v1 ''12'' bob) = Inl (ValueError phone_format_msg_v1)"
    by code_simp
  have e2: "fst (add_phone_main ''12'' bob) = Inl (ValueError phone_format_msg_main)"
    by code_simp
  have e3: "fst (edit_phone_v1 ''0000000000'' ''0501234567'' bob)
      = Inl (ValueError phone_not_found_msg_v1)"
    by code_simp
  have e4: "fst (edit_phone_main ''1112223330'' ''12'' bob)
      = Inl (ValueError phone_format_msg_main)"
    by code_simp
  have e5: "fst (add_birthday_v1 ''31.02.2024'' bob) = Inl (ValueError date_format_msg_v1)"
    by code_simp
  have e6: "fst (create_record_main ''Ann'' ''0501234567'' ''2024-01-01'' book_bob)
      = Inl (ValueError date_format_msg_main)"
    by code_simp
  have e7: "fst (add_contact_body [''Bob'', ''12''] book_bob)
      = Inl (ValueError phone_format_msg_v1)"
    by code_simp
  have m: "fst (add_contact [''Bob'', ''12''] book_bob) = phone_format_msg_v1"
    by code_simp
  note t = error_leaves_state_unchanged
  from e1 t [of "''12''" bob "ValueError phone_format_msg_v1"]
  have s1: "snd (add_phone_v1 ''12'' bob) = bob" by simp
  from e2 t [of "''12''" bob "ValueError phone_format_msg_main"]
  have s2: "snd (add_phone_main ''12'' bob) = bob" by simp
  from e3 t [of _ bob "ValueError phone_not_found_msg_v1" "''0000000000''" "''0501234567''"]
  have s3: "snd (edit_phone_v1 ''0000000000'' ''0501234567'' bob) = bob" by simp
  from e4 t [of _ bob "ValueError phone_format_msg_main" "''1112223330''" "''12''"]
  have s4: "snd (edit_phone_main ''1112223330'' ''12'' bob) = bob" by simp
  from e5 t [of _ bob "ValueError date_format_msg_v1" _ _ "''31.02.2024''"]
  have s5: "snd (add_birthday_v1 ''31.02.2024'' bob) = bob" by simp
  from e6 t [of "''0501234567''" _ "ValueError date_format_msg_main" _ _ "''2024-01-01''"
      "''Ann''" book_bob]
  have s6: "snd (create_record_main ''Ann'' ''0501234567'' ''2024-01-01'' book_bob) = book_bob"
    by simp
  from e7 t [of _ _ "ValueError phone_format_msg_v1" _ _ _ _ book_bob "[''Bob'', ''12'']"]
  have s7: "snd (add_contact [''Bob'', ''12''] book_bob) = book_bob" by simp
  from m s7 have "add_contact [''Bob'', ''12''] book_bob = (phone_format_msg_v1, book_bob)"
    by (metis prod.collapse)
  with e1 e2 e3 e4 e5 e6 e7 s1 s2 s3 s4 s5 s6 show ?thesis by simp
qed

subsection \<open>The \<^verbatim>\<open>add\<close> command\<close>

lemma map_of_dict_set_other: "k' \<noteq> k \<Longrightarrow> map_of (dict_set k v d) k' = map_of d k'"
  by (simp add: map_of_dict_set)

lemma keys_dict_set_present:
  "map_of d k = Some v' \<Longrightarrow> map fst (dict_set k v d) = map fst d"
  by (induction d) (auto split: if_splits)

text \<open>
  C9. For a call of the \<^verbatim>\<open>add\<close> command with the two arguments \<open>nm\<close> and \<open>phone\<close>, where
  \<open>phone\<close> passes the check of the Phone constructor (length 10 and \<^verbatim>\<open>str.isdigit\<close>, which
  every string of ten decimal digits does): when the book holds a record under \<open>nm\<close>,
  the phone is appended to that record, which stays under its key with its name, its
  earlier phones and its birthday, and the answer is \<open>Phone added.\<close>; the name is neither
  refused nor is the record replaced by a fresh one. Only when \<open>nm\<close> is absent is a
  fresh record holding exactly this one phone appended to the book, with the answer
  \<open>Contact added.\<close>. In both cases every other entry of the book is as before. A phone
  that fails the check gives the validation message and leaves the book unchanged.
\<close>

theorem add_contact_existing_or_fresh:
  "(find_v1 nm book = Some r \<and> Phone_validate_v1 phone \<longrightarrow>
      add_contact [nm, phone] book
        = (''Phone added.'', dict_set nm (r\<lparr>phones := phones r @ [phone]\<rparr>) book)
      \<and> find_v1 nm (snd (add_contact [nm, phone] book))
        = Some (r\<lparr>phones := phones r @ [phone]\<rparr>)
      \<and> map fst (snd (add_contact [nm, phone] book)) = map fst book)
   \<and> (find_v1 nm book = None \<and> Phone_validate_v1 phone \<longrightarrow>
      add_contact [nm, phone] book
        = (''Contact added.'', book @ [(nm, \<lparr>name = nm, phones = [phone], birthday = None\<rparr>)]))
   \<and> (\<not> Phone_validate_v1 phone \<longrightarrow>
      add_contact [nm, phone] book = (phone_format_msg_v1, book))
   \<and> (\<forall>nm'. nm' \<noteq> nm \<longrightarrow>
      find_v1 nm' (snd (add_contact [nm, phone] book)) = find_v1 nm' book)"
proof (cases "find_v1 nm book")
  case None
  then have "nm \<notin> set (map fst book)"
    by (simp add: find_v1_def dict_get_def map_of_eq_None_iff)
  with None show ?thesis
    by (simp add: add_contact_def add_contact_body_def add_phone_v1_cases Record_v1_def
        add_record_v1_def input_error_def find_v1_def dict_get_def map_of_dict_set)
      (simp add: dict_set_absent)
next
  case (Some r')
  then have "map_of book nm = Some r'"
    by (simp add: find_v1_def dict_get_def)
  with Some show ?thesis
    by (simp add: add_contact_def add_contact_body_def add_phone_v1_cases
        input_error_def find_v1_def dict_get_def map_of_dict_set dict_set_same
        keys_dict_set_present)
qed

theorem add_contact_existing_or_fresh_witness:
  "find_v1 ''Bob'' book_bob = Some bob \<and> Phone_validate_v1 ''0501234567''
   \<and> add_contact [''Bob'', ''0501234567''] book_bob
       = (''Phone added.'',
          [(''Bob'', \<lparr>name = ''Bob'', phones = [''1112223330'', ''0501234567''],
                     birthday = None\<rparr>)])
   \<and> find_v1 ''Ann'' book_bob = None
   \<and> add_contact [''Ann'', ''0501234567''] book_bob
       = (''Contact added.'',
          [(''Bob'', bob), (''Ann'', \<lparr>name = ''Ann'', phones = [''0501234567''],
                     birthday = None\<rparr>)])
   \<and> add_contact [''Bob'', ''12''] book_bob = (phone_format_msg_v1, book_bob)
   \<and> find_v1 ''Bob'' (snd (add_contact [''Ann'', ''0501234567''] book_bob)) = Some bob
   \<and> Phone_validate_v1 ten_superscripts
   \<and> add_contact [''Bob'', ten_superscripts] book_bob
       = (''Phone added.'',
          [(''Bob'', \<lparr>name = ''Bob'', phones = [''1112223330'', ten_superscripts],
                     birthday = None\<rparr>)])"
proof -
  have h1: "find_v1 ''Bob'' book_bob = Some bob" and h2: "find_v1 ''Ann'' book_bob = None"
    by (simp_all add: find_v1_def dict_get_def book_bob_def)
  have h3: "Phone_validate_v1 ''0501234567''" and h4: "\<not> Phone_validate_v1 ''12''"
    and h6: "Phone_validate_v1 ten_superscripts"
    by code_simp+
  have h5: "''Bob'' \<noteq> ''Ann''" by simp
  note t = add_contact_existing_or_fresh
  from h1 h3 t [of "''Bob''" book_bob bob "''0501234567''"]
  have a: "add_contact [''Bob'', ''0501234567''] book_bob
       = (''Phone added.'',
          [(''Bob'', \<lparr>name = ''Bob'', phones = [''1112223330'', ''0501234567''],
                     birthday = None\<rparr>)])"
    by (simp add: book_bob_def bob_def)
  from h2 h3 t [of "''Ann''" book_bob bob "''0501234567''"]
  have b: "add_contact [''Ann'', ''0501234567''] book_bob
       = (''Contact added.'',
          [(''Bob'', bob), (''Ann'', \<lparr>name = ''Ann'', phones = [''0501234567''],
                     birthday = None\<rparr>)])"
    by (simp add: book_bob_def)
  note t [of "''Ann''" book_bob bob "''0501234567''", THEN conjunct2, THEN conjunct2,
      THEN conjunct2, THEN spec, of "''Bob''"]
  with h5 have c: "find_v1 ''Bob'' (snd (add_contact [''Ann'', ''0501234567''] book_bob))
      = find_v1 ''Bob'' book_bob"
    by simp
  from h4 t [of "''Bob''" book_bob bob "''12''"]
  have d: "add_contact [''Bob'', ''12''] book_bob = (phone_format_msg_v1, book_bob)"
    by simp
  from h1 h6 t [of "''Bob''" book_bob bob ten_superscripts]
  have e: "add_contact [''Bob'', ten_superscripts] book_bob
       = (''Phone added.'',
          [(''Bob'', \<lparr>name = ''Bob'', phones = [''1112223330'', ten_superscripts],
                     birthday = None\<rparr>)])"
    by (simp add: book_bob_def bob_def)
  from h1 h2 h3 h6 a b c d e show ?thesis by simp
qed


subsection \<open>Editing a phone\<close>

lemma replace_first_eq_update:
  "old \<in> set ps \<Longrightarrow>
   takeWhile (\<lambda>p. p \<noteq> old) ps @ new # tl (dropWhile (\<lambda>p. p \<noteq> old) ps)
     = ps[first_index old ps := new]"
  by (induction ps) (auto simp: first_index_def)

lemma first_index_first:
  "old \<in> set ps \<Longrightarrow>
   first_index old ps < length ps \<and> ps ! first_index old ps = old
   \<and> old \<notin> set (take (first_index old ps) ps)"
  unfolding first_index_def
  by (induction ps) auto

text \<open>
  \<^verbatim>\<open>main.py\<close>: the first phone equal to \<open>old\<close> is replaced by the validated \<open>new\<close>, every
  other position is untouched; a missing \<open>old\<close> and an invalid \<open>new\<close> raise and leave the
  record as it was.
\<close>

lemma edit_phone_main_spec:
  "(old \<notin> set (phones r) \<longrightarrow>
      edit_phone_main old new r = (Inl (ValueError old_phone_not_found_msg_main), r))
   \<and> (old \<in> set (phones r) \<and> Phone_validate_v1 new \<longrightarrow>
      edit_phone_main old new r
        = (Inr (), r\<lparr>phones := (phones r)[first_index old (phones r) := new]\<rparr>))
   \<and> (old \<in> set (phones r) \<and> \<not> Phone_validate_v1 new \<longrightarrow>
      edit_phone_main old new r = (Inl (ValueError phone_format_msg_main), r))"
  by (simp add: edit_phone_main_def edit_phone_loop_main_absent edit_phone_loop_main_present
      replace_first_eq_update)

text \<open>\<^verbatim>\<open>1.py\<close>: the same replacement, but \<open>new\<close> is stored whatever it is.\<close>

lemma edit_phone_v1_spec:
  "(old \<notin> set (phones r) \<longrightarrow>
      edit_phone_v1 old new r = (Inl (ValueError phone_not_found_msg_v1), r))
   \<and> (old \<in> set (phones r) \<longrightarrow>
      edit_phone_v1 old new r
        = (Inr (), r\<lparr>phones := (phones r)[first_index old (phones r) := new]\<rparr>))"
  by (simp add: edit_phone_v1_def edit_phone_loop_v1_absent edit_phone_loop_v1_present
      replace_first_eq_update)

text \<open>
  C5 (code defect in \<^verbatim>\<open>1.py\<close>). \<open>edit_phone\<close> is to replace the first phone equal to
  \<open>old\<close> by the validated \<open>new\<close>. On a record holding \<open>0501234567\<close>, \<open>1112223330\<close>,
  \<open>1112223330\<close>, editing \<open>1112223330\<close> to \<open>12345\<close>: \<^verbatim>\<open>1.py\<close> replaces the first match by the
  unvalidated \<open>12345\<close> and returns normally, where \<^verbatim>\<open>main.py\<close> raises the validation error
  and keeps the record.
\<close>

theorem edit_phone_v1_replaces_without_validation:
  "edit_phone_v1 ''1112223330'' ''12345''
      \<lparr>name = ''Bob'', phones = [''0501234567'', ''1112223330'', ''1112223330''],
        birthday = None\<rparr>
     = (Inr (), \<lparr>name = ''Bob'', phones = [''0501234567'', ''12345'', ''1112223330''],
                  birthday = None\<rparr>)
   \<and> edit_phone_main ''1112223330'' ''12345''
      \<lparr>name = ''Bob'', phones = [''0501234567'', ''1112223330'', ''1112223330''],
        birthday = None\<rparr>
     = (Inl (ValueError phone_format_msg_main),
        \<lparr>name = ''Bob'', phones = [''0501234567'', ''1112223330'', ''1112223330''],
          birthday = None\<rparr>)"
  by code_simp

subsection \<open>The phone check as an invariant of a record\<close>

lemma phones_valid_iff: "phones_valid r \<longleftrightarrow> (\<forall>p\<in>set (phones r). ten_digit_rule p)"
  by (simp add: phones_valid_def list_all_iff)

lemma phones_accepted_iff:
  "phones_accepted r \<longleftrightarrow> (\<forall>p\<in>set (phones r). Phone_validate_v1 p)"
  by (simp add: phones_accepted_def list_all_iff)

lemma phones_valid_accepted: "phones_valid r \<Longrightarrow> phones_accepted r"
  by (simp add: phones_valid_iff phones_accepted_iff ten_digit_rule_accepted)

lemma set_skip_remove: "set (skip_remove p ps) \<subseteq> set ps"
  by (induction p ps rule: skip_remove.induct) auto

lemma set_edit_phone_loop_main:
  "set (snd (edit_phone_loop_main old new ps))
     \<subseteq> set ps \<union> {n. n = new \<and> Phone_validate_v1 new}"
  by (induction ps) (auto simp: Phone_main_check split: prod.splits if_splits)

lemma set_edit_phone_loop_v1:
  "set (snd (edit_phone_loop_v1 old new ps)) \<subseteq> insert new (set ps)"
  by (induction ps) (auto split: prod.splits if_splits)

lemma set_remove_phone_loop_main: "set (snd (remove_phone_loop_main p ps)) \<subseteq> set ps"
  by (induction ps) (auto split: prod.splits if_splits)

text \<open>
  What an operation leaves stored: phones that were stored before, and the argument of
  an \<open>add_phone\<close> or \<open>edit_phone\<close> that passed the check.
\<close>

lemma run_op_main_phones:
  "set (phones (run_op_main r op)) \<subseteq> set (phones r) \<union> op_number op"
proof (cases op)
  case (AddPhone p)
  then show ?thesis
    by (auto simp: add_phone_main_cases)
next
  case (RemovePhone p)
  then show ?thesis
    using set_remove_phone_loop_main [of p "phones r"]
    by (auto simp: remove_phone_main_def split: prod.splits)
next
  case (EditPhone old new)
  then show ?thesis
    using set_edit_phone_loop_main [of old new "phones r"]
    by (auto simp: edit_phone_main_def split: prod.splits)
next
  case (SetBirthday b)
  then show ?thesis by simp
qed

lemma run_op_v1_phones:
  "edits_valid op \<Longrightarrow> set (phones (run_op_v1 r op)) \<subseteq> set (phones r) \<union> op_number op"
proof (cases op)
  case (AddPhone p)
  then show ?thesis
    by (auto simp: add_phone_v1_cases)
next
  case (RemovePhone p)
  then show ?thesis
    using set_skip_remove [of p "phones r"]
    by (auto simp: remove_phone_v1_eq)
next
  case (EditPhone old new)
  then show "edits_valid op \<Longrightarrow> ?thesis"
    using set_edit_phone_loop_v1 [of old new "phones r"]
    by (auto simp: edit_phone_v1_def split: prod.splits)
next
  case (SetBirthday b)
  then show ?thesis
    by (auto simp: add_birthday_v1_def split: sum.splits)
qed

lemma op_number_accepted: "p \<in> op_number op \<Longrightarrow> Phone_validate_v1 p"
  by (cases op) (auto split: if_splits)

lemma op_number_ascii: "ascii_op op \<Longrightarrow> p \<in> op_number op \<Longrightarrow> ten_digit_rule p"
  by (cases op) (auto simp: accepted_ascii split: if_splits)

lemma run_op_main_accepted: "phones_accepted r \<Longrightarrow> phones_accepted (run_op_main r op)"
  using run_op_main_phones [of r op] op_number_accepted [of _ op]
  unfolding phones_accepted_iff by blast

lemma run_op_main_valid:
  "phones_valid r \<Longrightarrow> ascii_op op \<Longrightarrow> phones_valid (run_op_main r op)"
  using run_op_main_phones [of r op] op_number_ascii [of op]
  unfolding phones_valid_iff by blast

lemma run_op_v1_accepted:
  "phones_accepted r \<Longrightarrow> edits_valid op \<Longrightarrow> phones_accepted (run_op_v1 r op)"
  using run_op_v1_phones [of op r] op_number_accepted [of _ op]
  unfolding phones_accepted_iff by blast

lemma run_op_v1_valid:
  "phones_valid r \<Longrightarrow> edits_valid op \<Longrightarrow> ascii_op op \<Longrightarrow> phones_valid (run_op_v1 r op)"
  using run_op_v1_phones [of op r] op_number_ascii [of op]
  unfolding phones_valid_iff by blast

text \<open>
  In \<^verbatim>\<open>main.py\<close> every stored phone has passed the check of the Phone constructor, after
  every sequence of operations on a record of which this was true, a fresh record among
  them. For operations whose numbers are ASCII text this is the 10-digit rule.
\<close>

lemma phones_accepted_main_invariant:
  "phones_accepted r \<Longrightarrow> phones_accepted (foldl run_op_main r ops)"
  by (induction ops arbitrary: r) (simp_all add: run_op_main_accepted)

lemma phones_valid_main_invariant_ascii:
  "phones_valid r \<Longrightarrow> list_all ascii_op ops \<Longrightarrow> phones_valid (foldl run_op_main r ops)"
  by (induction ops arbitrary: r) (simp_all add: run_op_main_valid)

lemma Record_main_phones_valid: "Record_main nm b = Inr r \<Longrightarrow> phones_valid r"
  by (auto simp: Record_main_def phones_valid_def split: sum.splits if_splits)

text \<open>
  In \<^verbatim>\<open>1.py\<close> the same holds as long as every edit is given a new number that passes the
  check: the edit is the only operation that stores a string unchecked.
\<close>

lemma phones_accepted_v1_invariant:
  "phones_accepted r \<Longrightarrow> list_all edits_valid ops \<Longrightarrow>
   phones_accepted (foldl run_op_v1 r ops)"
  by (induction ops arbitrary: r) (simp_all add: run_op_v1_accepted)

lemma phones_valid_v1_invariant_ascii:
  "phones_valid r \<Longrightarrow> list_all edits_valid ops \<Longrightarrow> list_all ascii_op ops \<Longrightarrow>
   phones_valid (foldl run_op_v1 r ops)"
  by (induction ops arbitrary: r) (simp_all add: run_op_v1_valid)

text \<open>
  C1 (code defect in \<^verbatim>\<open>1.py\<close>). Every stored phone is to satisfy the 10-digit rule after
  every operation, \<open>edit_phone\<close> validating the new number before it stores it. In
  \<^verbatim>\<open>1.py\<close>, \<open>edit_phone\<close> assigns the new string to the stored phone with no check: on the
  valid record \<open>bob\<close>, editing \<open>1112223330\<close> to \<open>abc\<close> returns normally and leaves \<open>abc\<close>
  stored.
\<close>

theorem edit_phone_v1_breaks_phone_invariant:
  "phones_valid bob
   \<and> run_op_v1 bob (EditPhone ''1112223330'' ''abc'')
       = \<lparr>name = ''Bob'', phones = [''abc''], birthday = None\<rparr>
   \<and> fst (edit_phone_v1 ''1112223330'' ''abc'' bob) = Inr ()
   \<and> \<not> phones_valid (run_op_v1 bob (EditPhone ''1112223330'' ''abc''))"
  by code_simp


subsection \<open>The birthday scheduler\<close>

lemma div_facts:
  fixes z :: int
  shows "4 * (z div 4) \<le> z" "z - 3 \<le> 4 * (z div 4)"
    "100 * (z div 100) \<le> z" "z - 99 \<le> 100 * (z div 100)"
    "400 * (z div 400) \<le> z" "z - 399 \<le> 400 * (z div 400)"
  by presburger+

lemma days_before_year_nonneg: "1 \<le> y \<Longrightarrow> 0 \<le> days_before_year y"
proof -
  assume y: "1 \<le> y"
  define z where "z = y - 1"
  define a b c where "a = z div 4" and "b = z div 100" and "c = z div 400"
  have z: "0 \<le> z" using y by (simp add: z_def)
  then have "0 \<le> a" "0 \<le> c" by (simp_all add: a_def c_def pos_imp_zdiv_nonneg_iff)
  moreover have "100 * b \<le> z" unfolding b_def by (rule div_facts)
  ultimately have "0 \<le> z * 365 + a - b + c" using z by linarith
  then show ?thesis
    by (simp add: days_before_year_def Let_def z_def a_def b_def c_def)
qed

lemma days_before_year_upper: "y \<le> 9998 \<Longrightarrow> days_before_year y \<le> 3651400"
proof -
  assume y: "y \<le> 9998"
  define z where "z = y - 1"
  define a b c where "a = z div 4" and "b = z div 100" and "c = z div 400"
  have "z \<le> 9997" using y by (simp add: z_def)
  moreover have "4 * a \<le> z" "z - 99 \<le> 100 * b" "400 * c \<le> z"
    unfolding a_def b_def c_def by (rule div_facts)+
  ultimately have "z * 365 + a - b + c \<le> 3651400" by linarith
  then show ?thesis
    by (simp add: days_before_year_def Let_def z_def a_def b_def c_def)
qed

lemma weekend_ordinal:
  fixes n :: int
  assumes "1 \<le> n" "n \<le> 3652059" "5 \<le> (n + 6) mod 7"
  shows "0 < n + (7 - (n + 6) mod 7) \<and> n + (7 - (n + 6) mod 7) \<le> 3652059"
proof -
  have lt: "(n + 6) mod 7 < 7" by simp
  have "n \<noteq> 3652059" "n \<noteq> 3652058" using assms(3) by auto
  with assms lt show ?thesis by linarith
qed

lemma month_cases:
  "1 \<le> m \<Longrightarrow> m \<le> 12 \<Longrightarrow>
   m = 1 \<or> m = 2 \<or> m = 3 \<or> m = 4 \<or> m = 5 \<or> m = 6 \<or> m = 7 \<or> m = 8 \<or> m = 9 \<or> m = 10
   \<or> m = 11 \<or> m = (12::int)"
  by arith

lemma month_span:
  assumes "1 \<le> m" "m \<le> 12"
  shows "0 \<le> days_before_month y m"
    and "days_before_month y m + days_in_month y m \<le> (if is_leap y then 366 else 365)"
    and "days_in_month y m \<le> 31"
  using month_cases [OF assms]
  by (auto simp: days_before_month_def days_in_month_def DAYS_BEFORE_MONTH_def DAYS_IN_MONTH_def)

lemma year_9999: "days_before_year 9999 = 3651694" "\<not> is_leap 9999"
  by (simp_all add: days_before_year_def is_leap_def)

lemma toordinal_bounds:
  assumes "valid_date d"
  shows "1 \<le> toordinal d" "toordinal d \<le> MAXORDINAL"
proof -
  from assms have y: "1 \<le> year d" "year d \<le> 9999" and m: "1 \<le> month d" "month d \<le> 12"
    and dd: "1 \<le> day d" "day d \<le> days_in_month (year d) (month d)"
    by (simp_all add: valid_date_def real_date_def)
  from days_before_year_nonneg [OF y(1)] month_span(1) [OF m, of "year d"] dd(1)
  show "1 \<le> toordinal d"
    by (simp add: toordinal_def ymd2ord_def)
  show "toordinal d \<le> MAXORDINAL"
  proof (cases "year d = 9999")
    case True
    with month_span(2) [OF m, of "year d"] dd(2) year_9999
    show ?thesis
      by (simp add: toordinal_def ymd2ord_def MAXORDINAL_def)
  next
    case False
    with y have "year d \<le> 9998" by simp
    from days_before_year_upper [OF this] month_span(2) [OF m, of "year d"] dd(2)
    show ?thesis
      by (simp add: toordinal_def ymd2ord_def MAXORDINAL_def split: if_splits)
  qed
qed

text \<open>
  \<open>ord2ymd\<close> inverts \<open>toordinal\<close>: the date it returns for a day number is a real date
  with that day number.
\<close>

lemma case_if: "(case (if c then (a, b) else (a', b')) of (m, d) \<Rightarrow> f m d) = (if c then f a b else f a' b')"
  by simp

lemma ord2ymd_eq:
  "ord2ymd n0 =
     (let n = n0 - 1;
          n400 = n div 146097; n = n mod 146097;
          n100 = n div 36524; n = n mod 36524;
          n4 = n div 1461; n = n mod 1461;
          n1 = n div 365; n = n mod 365;
          y = n400 * 400 + 1 + n100 * 100 + n4 * 4 + n1
      in if n1 = 4 \<or> n100 = 4 then \<lparr>year = y - 1, month = 12, day = 31\<rparr>
         else case doy2md (n1 = 3 \<and> (n4 \<noteq> 24 \<or> n100 = 3)) n of
                (m, d) \<Rightarrow> \<lparr>year = y, month = m, day = d\<rparr>)"
  unfolding ord2ymd_def doy2md_def Let_def case_if ..

lemma doy2md_correct:
  assumes "0 \<le> n" "n \<le> 364"
  shows "case doy2md (is_leap y) n of (m, d) \<Rightarrow>
           1 \<le> m \<and> m \<le> 12 \<and> 1 \<le> d \<and> d \<le> days_in_month y m
           \<and> days_before_month y m + d = n + 1"
proof -
  define m0 where "m0 = (n + 50) div 32"
  have b: "32 * m0 \<le> n + 50" "n + 50 < 32 * m0 + 32"
    unfolding m0_def by presburger+
  with assms have "1 \<le> m0" "m0 \<le> 12" by linarith+
  then have "m0 = 1 \<or> m0 = 2 \<or> m0 = 3 \<or> m0 = 4 \<or> m0 = 5 \<or> m0 = 6 \<or> m0 = 7 \<or> m0 = 8
      \<or> m0 = 9 \<or> m0 = 10 \<or> m0 = 11 \<or> m0 = 12"
    by arith
  then show ?thesis
    using b assms
    unfolding doy2md_def Let_def m0_def [symmetric]
    by (elim disjE)
      (simp_all add: days_before_month_def days_in_month_def DAYS_BEFORE_MONTH_def
        DAYS_IN_MONTH_def)
qed


lemma cycle_bounds:
  fixes n :: int
  assumes "0 \<le> n"
  defines "q400 \<equiv> n div 146097" and "r400 \<equiv> n mod 146097"
  defines "q100 \<equiv> r400 div 36524" and "r100 \<equiv> r400 mod 36524"
  defines "q4 \<equiv> r100 div 1461" and "r4 \<equiv> r100 mod 1461"
  defines "q1 \<equiv> r4 div 365" and "r1 \<equiv> r4 mod 365"
  shows "n = 146097 * q400 + 36524 * q100 + 1461 * q4 + 365 * q1 + r1"
    and "0 \<le> q400" "0 \<le> q100" "q100 \<le> 4" "0 \<le> q4" "q4 \<le> 24" "0 \<le> q1" "q1 \<le> 4"
    and "0 \<le> r1" "r1 \<le> 364"
    and "q100 = 4 \<longrightarrow> q4 = 0 \<and> q1 = 0 \<and> r1 = 0"
    and "q1 = 4 \<longrightarrow> r1 = 0"
    and "q4 = 24 \<longrightarrow> q1 \<le> 3"
proof -
  have e400: "n = 146097 * q400 + r400" "0 \<le> r400" "r400 < 146097"
    by (simp_all add: q400_def r400_def)
  have e100: "r400 = 36524 * q100 + r100" "0 \<le> r100" "r100 < 36524"
    by (simp_all add: q100_def r100_def)
  have e4: "r100 = 1461 * q4 + r4" "0 \<le> r4" "r4 < 1461"
    by (simp_all add: q4_def r4_def)
  have e1: "r4 = 365 * q1 + r1" "0 \<le> r1" "r1 < 365"
    by (simp_all add: q1_def r1_def)
  show "0 \<le> q400" "0 \<le> q100" "0 \<le> q4" "0 \<le> q1"
    using assms(1) e400(2) e100(2) e4(2)
    by (simp_all add: q400_def q100_def q4_def q1_def pos_imp_zdiv_nonneg_iff)
  then have nn: "0 \<le> q400" "0 \<le> q100" "0 \<le> q4" "0 \<le> q1" .
  show "n = 146097 * q400 + 36524 * q100 + 1461 * q4 + 365 * q1 + r1"
    using e400(1) e100(1) e4(1) e1(1) by linarith
  show "q100 \<le> 4" using e400 e100 by linarith
  show "q4 \<le> 24" using e100 e4 by linarith
  show "q1 \<le> 4" using e4 e1 by linarith
  show "0 \<le> r1" "r1 \<le> 364" using e1 by linarith+
  show "q100 = 4 \<longrightarrow> q4 = 0 \<and> q1 = 0 \<and> r1 = 0"
    using e400 e100 e4 e1 nn by (intro impI conjI) linarith+
  show "q1 = 4 \<longrightarrow> r1 = 0" using e4 e1 by linarith
  show "q4 = 24 \<longrightarrow> q1 \<le> 3" using e100 e4 e1 by linarith
qed

lemma days_before_year_cycles:
  assumes "0 \<le> q400" "0 \<le> q100" "q100 \<le> 3" "0 \<le> q4" "q4 \<le> 24" "0 \<le> q1" "q1 \<le> 3"
  shows "days_before_year (400 * q400 + 100 * q100 + 4 * q4 + q1 + 1)
     = 146097 * q400 + 36524 * q100 + 1461 * q4 + 365 * q1"
proof -
  define Y where "Y = 400 * q400 + 100 * q100 + 4 * q4 + q1"
  have d4: "Y div 4 = 100 * q400 + 25 * q100 + q4"
    using assms by (intro int_div_pos_eq [where r = q1]) (simp_all add: Y_def)
  have d100: "Y div 100 = 4 * q400 + q100"
    using assms by (intro int_div_pos_eq [where r = "4 * q4 + q1"]) (simp_all add: Y_def)
  have d400: "Y div 400 = q400"
    using assms
    by (intro int_div_pos_eq [where r = "100 * q100 + 4 * q4 + q1"]) (simp_all add: Y_def)
  have "days_before_year (Y + 1) = Y * 365 + Y div 4 - Y div 100 + Y div 400"
    by (simp add: days_before_year_def)
  also have "\<dots> = 146097 * q400 + 36524 * q100 + 1461 * q4 + 365 * q1"
    unfolding d4 d100 d400 by (simp add: Y_def)
  finally show ?thesis by (simp add: Y_def)
qed

lemma is_leap_cycles:
  assumes "0 \<le> q400" "0 \<le> q100" "q100 \<le> 3" "0 \<le> q4" "q4 \<le> 24" "0 \<le> q1" "q1 \<le> 3"
  shows "is_leap (400 * q400 + 100 * q100 + 4 * q4 + q1 + 1)
     \<longleftrightarrow> q1 = 3 \<and> (q4 \<noteq> 24 \<or> q100 = 3)"
proof -
  define y where "y = 400 * q400 + 100 * q100 + 4 * q4 + q1 + 1"
  have m4: "y mod 4 = (if q1 = 3 then 0 else q1 + 1)"
  proof (cases "q1 = 3")
    case True
    then show ?thesis
      by (simp add: y_def int_mod_pos_eq [where q = "100 * q400 + 25 * q100 + q4 + 1"])
  next
    case False
    with assms show ?thesis
      by (simp add: y_def int_mod_pos_eq [where q = "100 * q400 + 25 * q100 + q4"])
  qed
  have m100: "y mod 100 = (if q4 = 24 then 0 else 4 * q4 + 4)" if "q1 = 3"
  proof (cases "q4 = 24")
    case True
    with that show ?thesis
      by (simp add: y_def int_mod_pos_eq [where q = "4 * q400 + q100 + 1"])
  next
    case False
    with that assms show ?thesis
      by (simp add: y_def int_mod_pos_eq [where q = "4 * q400 + q100"])
  qed
  have m400: "y mod 400 = (if q100 = 3 then 0 else 100 * q100 + 100)" if "q1 = 3" "q4 = 24"
  proof (cases "q100 = 3")
    case True
    with that show ?thesis
      by (simp add: y_def int_mod_pos_eq [where q = "q400 + 1"])
  next
    case False
    with that assms show ?thesis
      by (simp add: y_def int_mod_pos_eq [where q = "q400"])
  qed
  show ?thesis
    unfolding is_leap_def y_def [symmetric]
    using m4 m100 m400 assms by (auto split: if_splits)
qed

lemma ord2ymd_correct:
  assumes "1 \<le> n0"
  shows "toordinal (ord2ymd n0) = n0"
    and "1 \<le> year (ord2ymd n0)"
    and "1 \<le> month (ord2ymd n0) \<and> month (ord2ymd n0) \<le> 12"
    and "1 \<le> day (ord2ymd n0)
         \<and> day (ord2ymd n0) \<le> days_in_month (year (ord2ymd n0)) (month (ord2ymd n0))"
proof -
  define n where "n = n0 - 1"
  define q400 where "q400 = n div 146097"
  define r400 where "r400 = n mod 146097"
  define q100 where "q100 = r400 div 36524"
  define r100 where "r100 = r400 mod 36524"
  define q4 where "q4 = r100 div 1461"
  define r4 where "r4 = r100 mod 1461"
  define q1 where "q1 = r4 div 365"
  define r1 where "r1 = r4 mod 365"
  define Y where "Y = 400 * q400 + 100 * q100 + 4 * q4 + q1"
  have n0: "0 \<le> n" using assms by (simp add: n_def)
  note cb = cycle_bounds [OF n0, folded q400_def r400_def, folded q100_def r100_def,
      folded q4_def r4_def, folded q1_def r1_def]
  have eq: "ord2ymd n0 =
      (if q1 = 4 \<or> q100 = 4 then \<lparr>year = Y, month = 12, day = 31\<rparr>
       else case doy2md (q1 = 3 \<and> (q4 \<noteq> 24 \<or> q100 = 3)) r1 of
              (m, d) \<Rightarrow> \<lparr>year = Y + 1, month = m, day = d\<rparr>)"
    unfolding ord2ymd_eq Let_def
    unfolding n_def [symmetric]
    unfolding q400_def [symmetric] r400_def [symmetric]
    unfolding q100_def [symmetric] r100_def [symmetric]
    unfolding q4_def [symmetric] r4_def [symmetric]
    unfolding q1_def [symmetric] r1_def [symmetric]
    by (simp add: Y_def algebra_simps)
  have goal: "toordinal (ord2ymd n0) = n0 \<and> 1 \<le> year (ord2ymd n0)
      \<and> (1 \<le> month (ord2ymd n0) \<and> month (ord2ymd n0) \<le> 12)
      \<and> (1 \<le> day (ord2ymd n0)
         \<and> day (ord2ymd n0) \<le> days_in_month (year (ord2ymd n0)) (month (ord2ymd n0)))"
  proof (cases "q100 = 4")
    case True
    with cb have z: "q4 = 0" "q1 = 0" "r1 = 0" by simp_all
    have Y: "Y = 400 * q400 + 100 * 3 + 4 * 24 + 3 + 1" using True z by (simp add: Y_def)
    have d: "days_before_year Y = 146097 * q400 + 36524 * 3 + 1461 * 24 + 365 * 3"
      unfolding Y using cb(2) by (intro days_before_year_cycles) simp_all
    have l: "is_leap Y"
      unfolding Y using cb(2) by (subst is_leap_cycles) simp_all
    have e: "ord2ymd n0 = \<lparr>year = Y, month = 12, day = 31\<rparr>"
      using True by (simp add: eq)
    from cb(1) True z have "n0 = 146097 * q400 + 146097" by (simp add: n_def)
    with d l cb(2) show ?thesis
      unfolding e
      by (simp add: toordinal_def ymd2ord_def days_before_month_def days_in_month_def
          DAYS_BEFORE_MONTH_def DAYS_IN_MONTH_def Y)
  next
    case F100: False
    with cb have q100: "q100 \<le> 3" by simp
    show ?thesis
    proof (cases "q1 = 4")
      case True
      with cb have z: "r1 = 0" "q4 \<le> 23"
        by (simp, cases "q4 = 24") simp_all
      have Y: "Y = 400 * q400 + 100 * q100 + 4 * q4 + 3 + 1" using True by (simp add: Y_def)
      have d: "days_before_year Y = 146097 * q400 + 36524 * q100 + 1461 * q4 + 365 * 3"
        unfolding Y using cb q100 z by (intro days_before_year_cycles) simp_all
      have l: "is_leap Y"
        unfolding Y using cb q100 z by (subst is_leap_cycles) simp_all
      have e: "ord2ymd n0 = \<lparr>year = Y, month = 12, day = 31\<rparr>"
        using True by (simp add: eq)
      from cb(1) True z have "n0 = 146097 * q400 + 36524 * q100 + 1461 * q4 + 1461"
        by (simp add: n_def)
      with d l cb(2,3,5) show ?thesis
        unfolding e
        by (simp add: toordinal_def ymd2ord_def days_before_month_def days_in_month_def
            DAYS_BEFORE_MONTH_def DAYS_IN_MONTH_def Y)
    next
      case False
      with cb have q1: "q1 \<le> 3" by simp
      have d: "days_before_year (Y + 1) = 146097 * q400 + 36524 * q100 + 1461 * q4 + 365 * q1"
        unfolding Y_def using cb q100 q1 by (intro days_before_year_cycles) simp_all
      have l: "is_leap (Y + 1) \<longleftrightarrow> q1 = 3 \<and> (q4 \<noteq> 24 \<or> q100 = 3)"
        unfolding Y_def using cb q100 q1 by (intro is_leap_cycles) simp_all
      obtain m dd where md: "doy2md (is_leap (Y + 1)) r1 = (m, dd)"
        by (cases "doy2md (is_leap (Y + 1)) r1")
      from doy2md_correct [of r1 "Y + 1"] cb(9,10) md
      have c: "1 \<le> m" "m \<le> 12" "1 \<le> dd" "dd \<le> days_in_month (Y + 1) m"
        "days_before_month (Y + 1) m + dd = r1 + 1"
        by simp_all
      have e: "ord2ymd n0 = \<lparr>year = Y + 1, month = m, day = dd\<rparr>"
        using F100 False md [unfolded l] by (simp add: eq)
      have "0 \<le> Y" using cb(2,3,5,7) by (simp add: Y_def)
      moreover have "n0 = n + 1" by (simp add: n_def)
      ultimately show ?thesis
        using c d cb(1) unfolding e
        by (simp add: toordinal_def ymd2ord_def)
    qed
  qed
  from goal show "toordinal (ord2ymd n0) = n0" by blast
  from goal show "1 \<le> year (ord2ymd n0)" by blast
  from goal show "1 \<le> month (ord2ymd n0) \<and> month (ord2ymd n0) \<le> 12" by blast
  from goal show "1 \<le> day (ord2ymd n0)
         \<and> day (ord2ymd n0) \<le> days_in_month (year (ord2ymd n0)) (month (ord2ymd n0))"
    by blast
qed

lemma days_before_year_beyond: "10000 \<le> y \<Longrightarrow> 3652059 \<le> days_before_year y"
proof -
  assume y: "10000 \<le> y"
  define z where "z = y - 1"
  define a b c where "a = z div 4" and "b = z div 100" and "c = z div 400"
  define X where "X = z * 365 + a - b + c"
  have "9999 \<le> z" using y by (simp add: z_def)
  moreover have "z - 3 \<le> 4 * a" "100 * b \<le> z" "z - 399 \<le> 400 * c"
    unfolding a_def b_def c_def by (rule div_facts)+
  ultimately have "146097 * 9999 - 699 \<le> 146000 * z + 100 * (4 * a) - 4 * (100 * b) + 400 * c"
    by linarith
  also have "\<dots> = 400 * X" by (simp add: X_def)
  finally have "3652059 \<le> X" by linarith
  then show ?thesis
    by (simp add: days_before_year_def Let_def z_def a_def b_def c_def X_def)
qed

lemma ord2ymd_valid:
  assumes "1 \<le> n" "n \<le> MAXORDINAL"
  shows "valid_date (ord2ymd n)"
proof -
  note c = ord2ymd_correct [OF assms(1)]
  have "year (ord2ymd n) \<le> 9999"
  proof (rule ccontr)
    assume "\<not> year (ord2ymd n) \<le> 9999"
    then have "3652059 \<le> days_before_year (year (ord2ymd n))"
      by (intro days_before_year_beyond) simp
    moreover have "0 \<le> days_before_month (year (ord2ymd n)) (month (ord2ymd n))"
      using c(3) by (intro month_span(1)) simp_all
    ultimately have "3652059 < toordinal (ord2ymd n)"
      using c(4) by (simp add: toordinal_def ymd2ord_def)
    with c(1) assms(2) show False by (simp add: MAXORDINAL_def)
  qed
  with c show ?thesis by (simp add: valid_date_def real_date_def)
qed


lemma weekday_range: "0 \<le> weekday d" "weekday d < 7"
  by (simp_all add: weekday_def)

lemma weekend_shift_in_range:
  assumes "valid_date d" "5 \<le> weekday d"
  shows "date_add_days d (7 - weekday d) = Inr (ord2ymd (toordinal d + (7 - weekday d)))"
proof -
  from toordinal_bounds [OF assms(1)] assms(2)
  have "0 < toordinal d + (7 - weekday d) \<and> toordinal d + (7 - weekday d) \<le> MAXORDINAL"
    unfolding weekday_def MAXORDINAL_def by (intro weekend_ordinal) simp_all
  then show ?thesis by (simp add: date_add_days_def Let_def)
qed

lemma date_replace_year_valid:
  "valid_date (d\<lparr>year := y\<rparr>) \<Longrightarrow> date_replace_year d y = Inr (d\<lparr>year := y\<rparr>)"
  by (simp add: date_replace_year_def date_new_def valid_date_def real_date_def
      MINYEAR_def MAXYEAR_def)

lemma date_replace_year_invalid:
  "\<not> valid_date (d\<lparr>year := y\<rparr>) \<Longrightarrow> \<exists>m. date_replace_year d y = Inl (ValueError m)"
  by (auto simp: date_replace_year_def date_new_def valid_date_def real_date_def
      MINYEAR_def MAXYEAR_def)

lemma upcoming_step_spec:
  assumes "\<forall>b. birthday r = Some b \<longrightarrow> (\<exists>bd. strptime b = Inr bd \<and> reinterpretable today bd)"
  shows "upcoming_step today r =
     Inr (case spec_entries today r of [] \<Rightarrow> None | e # _ \<Rightarrow> Some (render_entry e))"
proof (cases "birthday r")
  case None
  then show ?thesis by (simp add: upcoming_step_def spec_entries_def)
next
  case (Some b')
  with assms obtain bd where bd: "strptime b' = Inr bd" and re: "reinterpretable today bd"
    by auto
  let ?ty = "bd\<lparr>year := year today\<rparr>" and ?occ = "spec_occurrence today bd"
  from re have v1: "valid_date ?ty" and v2: "valid_date ?occ"
    by (simp_all add: reinterpretable_def)
  have r1: "date_replace_year bd (year today) = Inr ?ty"
    using v1 by (rule date_replace_year_valid)
  have r2: "(if date_lt ?ty today then date_replace_year ?ty (year today + 1) else Inr ?ty)
      = Inr ?occ"
  proof (cases "date_lt ?ty today")
    case True
    then have occ: "?occ = bd\<lparr>year := year today + 1\<rparr>"
      by (simp add: spec_occurrence_def)
    have "date_replace_year ?ty (year today + 1) = date_replace_year bd (year today + 1)"
      by (simp add: date_replace_year_def)
    also have "\<dots> = Inr (bd\<lparr>year := year today + 1\<rparr>)"
      using v2 unfolding occ by (rule date_replace_year_valid)
    finally show ?thesis using True occ by simp
  next
    case False
    then show ?thesis by (simp add: spec_occurrence_def)
  qed
  have r3: "(if 5 \<le> weekday ?occ then date_add_days ?occ (7 - weekday ?occ) else Inr ?occ)
      = Inr (spec_congratulation ?occ)"
  proof (cases "5 \<le> weekday ?occ")
    case True
    moreover from True weekday_range(2) [of ?occ] have "weekday ?occ = 5 \<or> weekday ?occ = 6"
      by arith
    ultimately show ?thesis
      using weekend_shift_in_range [OF v2] by (simp add: spec_congratulation_def)
  next
    case False
    then have "\<not> (weekday ?occ = 5 \<or> weekday ?occ = 6)" by arith
    with False show ?thesis by (simp add: spec_congratulation_def)
  qed
  show ?thesis
    unfolding upcoming_step_def spec_entries_def
    by (simp add: Some bd r1 r2 r3 Let_def spec_in_window_def render_entry_def
        )
qed

lemma upcoming_loop_spec:
  assumes "\<forall>r\<in>set rs. \<forall>b. birthday r = Some b \<longrightarrow>
             (\<exists>bd. strptime b = Inr bd \<and> reinterpretable today bd)"
  shows "upcoming_loop today rs acc
     = Inr (acc @ map render_entry (concat (map (spec_entries today) rs)))"
  using assms
proof (induction rs arbitrary: acc)
  case Nil
  then show ?case by simp
next
  case (Cons r rs)
  have step: "upcoming_step today r =
     Inr (case spec_entries today r of [] \<Rightarrow> None | e # _ \<Rightarrow> Some (render_entry e))"
    using Cons.prems by (intro upcoming_step_spec) simp
  have len: "spec_entries today r = [] \<or> (\<exists>e. spec_entries today r = [e])"
    by (simp add: spec_entries_def split: option.splits sum.splits)
  from Cons.prems have IH: "upcoming_loop today rs acc'
     = Inr (acc' @ map render_entry (concat (map (spec_entries today) rs)))" for acc'
    by (intro Cons.IH) simp
  from len show ?case
    by (auto simp: step IH)
qed

text \<open>
  A Saturday or Sunday is moved to the Monday after it: the moved date is a real date,
  7 minus the weekday days later, and a Monday. Every other date stays as it is.
\<close>

lemma spec_congratulation_weekend:
  assumes "valid_date d" "weekday d = 5 \<or> weekday d = 6"
  shows "valid_date (spec_congratulation d)"
    and "weekday (spec_congratulation d) = 0"
    and "days_between (spec_congratulation d) d = 7 - weekday d"
proof -
  let ?n = "toordinal d + (7 - weekday d)"
  from assms(2) have w: "5 \<le> weekday d" by auto
  from toordinal_bounds [OF assms(1)] w
  have r: "1 \<le> ?n" "?n \<le> MAXORDINAL"
    using weekend_ordinal [of "toordinal d"]
    by (simp_all add: weekday_def MAXORDINAL_def)
  have c: "spec_congratulation d = ord2ymd ?n"
    using assms(2) by (simp add: spec_congratulation_def)
  show "valid_date (spec_congratulation d)"
    unfolding c using r by (rule ord2ymd_valid)
  have t: "toordinal (spec_congratulation d) = ?n"
    unfolding c using r(1) by (rule ord2ymd_correct(1))
  then show "days_between (spec_congratulation d) d = 7 - weekday d"
    by (simp add: days_between_def)
  show "weekday (spec_congratulation d) = 0"
    unfolding weekday_def [of "spec_congratulation d"] t
    using assms(2) unfolding weekday_def by presburger
qed

lemma spec_congratulation_other:
  "\<not> (weekday d = 5 \<or> weekday d = 6) \<Longrightarrow> spec_congratulation d = d"
  by (simp add: spec_congratulation_def)

lemma spec_congratulation_working_day:
  assumes "valid_date d"
  shows "valid_date (spec_congratulation d) \<and> weekday (spec_congratulation d) < 5"
proof (cases "weekday d = 5 \<or> weekday d = 6")
  case True
  from spec_congratulation_weekend(1,2) [OF assms True] show ?thesis by simp
next
  case False
  moreover from False weekday_range [of d] have "weekday d < 5" by arith
  ultimately show ?thesis using assms by (simp add: spec_congratulation_other)
qed

lemma spec_entries_working_days:
  assumes "\<forall>b. birthday r = Some b \<longrightarrow> (\<exists>bd. strptime b = Inr bd \<and> reinterpretable today bd)"
  shows "list_all (\<lambda>e. valid_date (snd e) \<and> weekday (snd e) < 5) (spec_entries today r)"
proof (cases "birthday r")
  case None
  then show ?thesis by (simp add: spec_entries_def)
next
  case (Some b)
  with assms obtain bd where "strptime b = Inr bd" "reinterpretable today bd" by auto
  with Some show ?thesis
    using spec_congratulation_working_day [of "spec_occurrence today bd"]
    by (simp add: spec_entries_def reinterpretable_def)
qed

lemma spec_upcoming_working_days:
  assumes "\<forall>r\<in>set (dict_values book). \<forall>b. birthday r = Some b \<longrightarrow>
             (\<exists>bd. strptime b = Inr bd \<and> reinterpretable today bd)"
  shows "list_all (\<lambda>e. valid_date (snd e) \<and> weekday (snd e) < 5) (spec_upcoming today book)"
proof -
  have "list_all (\<lambda>e. valid_date (snd e) \<and> weekday (snd e) < 5) (spec_entries today r)"
    if "r \<in> set (dict_values book)" for r
    using assms that by (intro spec_entries_working_days) blast
  then show ?thesis
    by (auto simp: spec_upcoming_def list_all_iff)
qed

text \<open>
  C2 (amended). For every book and every date \<open>today\<close> such that the day and month of
  every stored birthday exist in today's year and, when that date is strictly before
  today, in the following year as well: the scheduler returns, in the order of the book,
  exactly the records with a birthday whose next occurrence (the stored day and month
  on today's year, advanced by one year when strictly before today) lies 0 to 7 whole
  days from today; each entry carries the record's name and that date, moved forward by
  7 minus the weekday to the following Monday when it falls on a Saturday (5) or a
  Sunday (6) and unmoved otherwise, rendered as year.month.day. Every date so returned
  is a real date from Monday to Friday.
\<close>

theorem upcoming_birthdays_spec:
  assumes "\<forall>r\<in>set (dict_values book). \<forall>b. birthday r = Some b \<longrightarrow>
             (\<exists>bd. strptime b = Inr bd \<and> reinterpretable today bd)"
  shows "get_upcoming_birthdays today book = Inr (map render_entry (spec_upcoming today book))
    \<and> list_all (\<lambda>e. valid_date (snd e) \<and> weekday (snd e) < 5) (spec_upcoming today book)"
  using upcoming_loop_spec [OF assms, of "[]"] spec_upcoming_working_days [OF assms]
  by (simp add: get_upcoming_birthdays_def spec_upcoming_def)

theorem upcoming_birthdays_spec_witness:
  "get_upcoming_birthdays monday_2024_06_10 book_june
     = Inr [(''Ann'', ''2024.06.12''), (''Bob'', ''2024.06.17'')]"
proof -
  have p: "strptime ''12.06.1990'' = Inr \<lparr>year = 1990, month = 6, day = 12\<rparr>"
    "strptime ''15.06.1990'' = Inr \<lparr>year = 1990, month = 6, day = 15\<rparr>"
    "strptime ''01.01.1990'' = Inr \<lparr>year = 1990, month = 1, day = 1\<rparr>"
    by code_simp+
  have r: "reinterpretable monday_2024_06_10 \<lparr>year = 1990, month = 6, day = 12\<rparr>"
    "reinterpretable monday_2024_06_10 \<lparr>year = 1990, month = 6, day = 15\<rparr>"
    "reinterpretable monday_2024_06_10 \<lparr>year = 1990, month = 1, day = 1\<rparr>"
    by code_simp+
  have h: "\<forall>r\<in>set (dict_values book_june). \<forall>b. birthday r = Some b \<longrightarrow>
             (\<exists>bd. strptime b = Inr bd \<and> reinterpretable monday_2024_06_10 bd)"
    by (simp add: book_june_def dict_values_def p r)
  have v: "map render_entry (spec_upcoming monday_2024_06_10 book_june)
      = [(''Ann'', ''2024.06.12''), (''Bob'', ''2024.06.17'')]"
    by code_simp
  from upcoming_birthdays_spec [OF h, THEN conjunct1] v show ?thesis by simp
qed

text \<open>
  The claim as stated, for every book and every date, fails: with a birthday on
  29 February and a year that has none, the scheduler raises and returns no list.
\<close>

theorem upcoming_birthdays_no_list_for_feb29:
  "get_upcoming_birthdays saturday_2023_02_25 book_eve
     = Inl (ValueError ''day is out of range for month'')"
  by code_simp

lemma upcoming_loop_raises:
  "r \<in> set rs \<Longrightarrow> upcoming_step today r = Inl e \<Longrightarrow> \<exists>e'. upcoming_loop today rs acc = Inl e'"
proof (induction rs arbitrary: acc)
  case Nil
  then show ?case by simp
next
  case (Cons x xs)
  then show ?case
    by (cases "upcoming_step today x") (auto split: option.splits)
qed

lemma feb29_step_raises:
  assumes "birthday r = Some b" "strptime b = Inr bd" "month bd = 2" "day bd = 29"
    "\<not> is_leap (year today)"
  shows "\<exists>m. upcoming_step today r = Inl (ValueError m)"
proof -
  have "\<not> valid_date (bd\<lparr>year := year today\<rparr>)"
    using assms(3-5) by (simp add: valid_date_def real_date_def days_in_month_def DAYS_IN_MONTH_def)
  from date_replace_year_invalid [OF this] obtain m
    where "date_replace_year bd (year today) = Inl (ValueError m)" ..
  with assms(1,2) show ?thesis by (simp add: upcoming_step_def)
qed

text \<open>
  C10. A book that holds a record whose stored birthday parses to a 29 February, asked
  in a year that is not a leap year, makes the scheduler raise instead of returning a
  list: moving the date to today's year yields no valid date. The stored birthday is a
  valid Birthday, so every field of such a book can satisfy its validation rule.
\<close>

theorem upcoming_birthdays_raises_on_feb29:
  assumes "r \<in> set (dict_values book)" "birthday r = Some b" "strptime b = Inr bd" "month bd = 2" "day bd = 29"
    "\<not> is_leap (year today)"
  shows "\<exists>e. get_upcoming_birthdays today book = Inl e"
  using feb29_step_raises [OF assms(2-6)] upcoming_loop_raises [OF assms(1)]
  unfolding get_upcoming_birthdays_def by blast


theorem upcoming_birthdays_raises_on_feb29_witness:
  "fst (add_phone_v1 ''0501234567'' (Record_v1 ''Eve'')) = Inr ()
   \<and> fst (add_birthday_v1 ''29.02.2000'' (snd (add_phone_v1 ''0501234567'' (Record_v1 ''Eve''))))
       = Inr ()
   \<and> add_record_v1
        (snd (add_birthday_v1 ''29.02.2000'' (snd (add_phone_v1 ''0501234567'' (Record_v1 ''Eve'')))))
        [] = (Inr (), book_eve)
   \<and> strptime ''29.02.2000'' = Inr \<lparr>year = 2000, month = 2, day = 29\<rparr>
   \<and> \<not> is_leap (year saturday_2023_02_25)
   \<and> (\<exists>e. get_upcoming_birthdays saturday_2023_02_25 book_eve = Inl e)"
proof -
  have b: "fst (add_phone_v1 ''0501234567'' (Record_v1 ''Eve'')) = Inr ()"
    "fst (add_birthday_v1 ''29.02.2000'' (snd (add_phone_v1 ''0501234567'' (Record_v1 ''Eve''))))
       = Inr ()"
    "add_record_v1
        (snd (add_birthday_v1 ''29.02.2000'' (snd (add_phone_v1 ''0501234567'' (Record_v1 ''Eve'')))))
        [] = (Inr (), book_eve)"
    by code_simp+
  have h1: "eve \<in> set (dict_values book_eve)"
    by (simp add: book_eve_def dict_values_def)
  have h2: "birthday eve = Some ''29.02.2000''"
    by (simp add: eve_def)
  have h3: "strptime ''29.02.2000'' = Inr \<lparr>year = 2000, month = 2, day = 29\<rparr>"
    by code_simp
  have h4: "month \<lparr>year = 2000, month = 2, day = 29\<rparr> = 2"
    and h5: "day \<lparr>year = 2000, month = 2, day = 29\<rparr> = 29"
    by simp_all
  have h6: "\<not> is_leap (year saturday_2023_02_25)"
    by (simp add: saturday_2023_02_25_def is_leap_def)
  from upcoming_birthdays_raises_on_feb29 [OF h1 h2 h3 h4 h5 h6] b h3 h6
  show ?thesis by simp
qed

text \<open>
  When every stored birthday parses, the scheduler returns a list exactly when every
  birthday can be moved to the year it is needed in; otherwise it raises.
\<close>

lemma strptime_valid: "strptime s = Inr bd \<Longrightarrow> valid_date bd"
  by (auto simp: strptime_iff date_new_iff valid_date_def)

lemma valid_date_year_update:
  assumes "valid_date bd" "1 \<le> y" "y \<le> 9999"
  shows "valid_date (bd\<lparr>year := y\<rparr>) \<longleftrightarrow> \<not> (month bd = 2 \<and> day bd = 29 \<and> \<not> is_leap y)"
proof -
  from assms(1) have m: "1 \<le> month bd" "month bd \<le> 12"
    and d: "1 \<le> day bd" "day bd \<le> days_in_month (year bd) (month bd)"
    by (simp_all add: valid_date_def real_date_def)
  from month_cases [OF m] d assms(2,3) show ?thesis
    by (auto simp: valid_date_def real_date_def days_in_month_def DAYS_IN_MONTH_def
        split: if_splits)
qed

lemma upcoming_step_raises:
  assumes "birthday r = Some b" "strptime b = Inr bd" "\<not> reinterpretable today bd"
  shows "\<exists>m. upcoming_step today r = Inl (ValueError m)"
proof (cases "valid_date (bd\<lparr>year := year today\<rparr>)")
  case False
  from date_replace_year_invalid [OF this] assms(1,2) show ?thesis
    by (auto simp: upcoming_step_def)
next
  case True
  with assms(3) have lt: "date_lt (bd\<lparr>year := year today\<rparr>) today"
    and nv: "\<not> valid_date (bd\<lparr>year := year today + 1\<rparr>)"
    by (auto simp: reinterpretable_def spec_occurrence_def Let_def split: if_splits)
  from date_replace_year_invalid [OF nv] obtain m
    where "date_replace_year bd (year today + 1) = Inl (ValueError m)" ..
  then have "date_replace_year (bd\<lparr>year := year today\<rparr>) (year today + 1) = Inl (ValueError m)"
    by (simp add: date_replace_year_def)
  with assms(1,2) lt date_replace_year_valid [OF True] show ?thesis
    by (simp add: upcoming_step_def)
qed

lemma upcoming_returns_iff:
  assumes "\<forall>r\<in>set (dict_values book). \<forall>b. birthday r = Some b \<longrightarrow> (\<exists>bd. strptime b = Inr bd)"
  shows "(\<exists>res. get_upcoming_birthdays today book = Inr res) \<longleftrightarrow>
     (\<forall>r\<in>set (dict_values book). \<forall>b bd. birthday r = Some b \<longrightarrow> strptime b = Inr bd \<longrightarrow>
        reinterpretable today bd)"
  (is "?L \<longleftrightarrow> ?R")
proof
  assume ?R
  with assms have "\<forall>r\<in>set (dict_values book). \<forall>b. birthday r = Some b \<longrightarrow>
             (\<exists>bd. strptime b = Inr bd \<and> reinterpretable today bd)"
    by blast
  from upcoming_loop_spec [OF this, of "[]"] show ?L by (simp add: get_upcoming_birthdays_def)
next
  assume l: ?L
  show ?R
  proof (intro ballI allI impI, rule ccontr)
    fix r b bd
    assume "r \<in> set (dict_values book)" "birthday r = Some b" "strptime b = Inr bd"
      "\<not> reinterpretable today bd"
    with upcoming_step_raises [of r b bd today] upcoming_loop_raises [of r "dict_values book" today _ "[]"]
    have "\<exists>e. get_upcoming_birthdays today book = Inl e"
      unfolding get_upcoming_birthdays_def by blast
    with l show False by auto
  qed
qed


text \<open>
  A birthday can always be moved unless it is a 29 February (or today's year is the last
  one the date type has).
\<close>

lemma reinterpretable_without_feb29:
  assumes "valid_date today" "year today < 9999" "valid_date bd"
    "\<not> (month bd = 2 \<and> day bd = 29)"
  shows "reinterpretable today bd"
proof -
  from assms(1) have y: "1 \<le> year today" by (simp add: valid_date_def real_date_def)
  from assms(2-4) y show ?thesis
    by (auto simp: reinterpretable_def spec_occurrence_def Let_def valid_date_year_update)
qed

subsection \<open>Birthdays in the exact pattern\<close>

text \<open>
  The half of the claim on Birthday that holds as stated: a string of the exact pattern
  of two digits, two digits and four digits that names a real date is accepted.
\<close>

lemma digit_code:
  assumes "decimal_digit c"
  shows "48 \<le> int (of_char c)" "int (of_char c) \<le> 57" "c \<noteq> CHR '' ''"
  using assms by (auto simp: decimal_digit_def)

lemma digit_of_code:
  assumes "decimal_digit c"
  shows "int (of_char c) \<noteq> 48 \<Longrightarrow> nonzero_digit c"
    and "int (of_char c) \<le> 49 \<Longrightarrow> c \<in> set ''01''"
    and "int (of_char c) \<le> 50 \<Longrightarrow> c \<in> set ''012''"
  using assms by (auto simp: decimal_digit_def nonzero_digit_def)

lemma py_int_two: "c1 \<noteq> CHR '' '' \<Longrightarrow> c2 \<noteq> CHR '' '' \<Longrightarrow>
  py_int [c1, c2] = (int (of_char c1) - 48) * 10 + (int (of_char c2) - 48)"
  by (simp add: py_int_def py_strip_def)

lemma digit_cases:
  assumes "decimal_digit c"
  obtains "c = CHR ''0''" | "c = CHR ''1''" | "c = CHR ''2''" | "c = CHR ''3''"
    | "decimal_digit c" "52 \<le> int (of_char c)"
  using assms by (auto simp: decimal_digit_def)

lemma two_digit_day:
  assumes "decimal_digit c1" "decimal_digit c2" "1 \<le> py_int [c1, c2]" "py_int [c1, c2] \<le> 31"
  shows "day_text [c1, c2]"
proof -
  note k = digit_code [OF assms(2)]
  have v: "py_int [c1, c2] = (int (of_char c1) - 48) * 10 + (int (of_char c2) - 48)"
    using digit_code(3) [OF assms(1)] k(3) by (rule py_int_two)
  from assms(1) show ?thesis
  proof (cases rule: digit_cases)
    case 1
    with assms(3) v have "int (of_char c2) \<noteq> 48" by simp
    with 1 digit_of_code(1) [OF assms(2)] show ?thesis by simp
  next
    case 2
    with assms(2) show ?thesis by simp
  next
    case 3
    with assms(2) show ?thesis by simp
  next
    case 4
    with assms(4) v have "int (of_char c2) \<le> 49" by simp
    with 4 digit_of_code(2) [OF assms(2)] show ?thesis by simp
  next
    case 5
    with assms(4) v k show ?thesis by simp
  qed
qed

lemma two_digit_month:
  assumes "decimal_digit c1" "decimal_digit c2" "1 \<le> py_int [c1, c2]" "py_int [c1, c2] \<le> 12"
  shows "month_text [c1, c2]"
proof -
  note k = digit_code [OF assms(2)]
  have v: "py_int [c1, c2] = (int (of_char c1) - 48) * 10 + (int (of_char c2) - 48)"
    using digit_code(3) [OF assms(1)] k(3) by (rule py_int_two)
  from assms(1) show ?thesis
  proof (cases rule: digit_cases)
    case 1
    with assms(3) v have "int (of_char c2) \<noteq> 48" by simp
    with 1 digit_of_code(1) [OF assms(2)] show ?thesis by simp
  next
    case 2
    with assms(4) v have "int (of_char c2) \<le> 50" by simp
    with 2 digit_of_code(3) [OF assms(2)] show ?thesis by simp
  next
    case 3
    with assms(4) v k show ?thesis by simp
  next
    case 4
    with assms(4) v k show ?thesis by simp
  next
    case 5
    with assms(4) v k show ?thesis by simp
  qed
qed

lemma strict_ddmmyyyy_iff:
  "strict_ddmmyyyy s \<longleftrightarrow>
     (\<exists>d1 d2 m1 m2 ys. s = [d1, d2] @ ''.'' @ [m1, m2] @ ''.'' @ ys \<and> decimal_digit d1
        \<and> decimal_digit d2 \<and> decimal_digit m1 \<and> decimal_digit m2 \<and> year_text ys)"
  (is "?L \<longleftrightarrow> ?R")
proof
  assume l: ?L
  then have "length s = 10" by (simp add: strict_ddmmyyyy_def)
  then obtain d1 d2 p1 m1 m2 p2 y1 y2 y3 y4 where s: "s = [d1, d2, p1, m1, m2, p2, y1, y2, y3, y4]"
    by (auto simp: length_Suc_conv eval_nat_numeral)
  from l show ?R
    unfolding s by (simp add: strict_ddmmyyyy_def year_text_def)
next
  assume ?R
  then obtain d1 d2 m1 m2 ys where
    s: "s = [d1, d2] @ ''.'' @ [m1, m2] @ ''.'' @ ys"
    and d: "decimal_digit d1" "decimal_digit d2" "decimal_digit m1" "decimal_digit m2"
    and y: "year_text ys"
    by blast
  from y obtain y1 y2 y3 y4 where ys: "ys = [y1, y2, y3, y4]"
    by (auto simp: year_text_iff)
  from d y show ?L
    unfolding s ys by (simp add: strict_ddmmyyyy_def year_text_def)
qed


lemma Birthday_accepts_strict:
  assumes "strict_ddmmyyyy s"
    and "real_date (py_int (drop 6 s)) (py_int (take 2 (drop 3 s))) (py_int (take 2 s))"
  shows "Birthday_v1 s = Inr s \<and> Birthday_main s = Inr s"
proof -
  from assms(1) obtain d1 d2 m1 m2 ys where
    s: "s = [d1, d2] @ ''.'' @ [m1, m2] @ ''.'' @ ys"
    and d: "decimal_digit d1" "decimal_digit d2" "decimal_digit m1" "decimal_digit m2"
    and y: "year_text ys"
    unfolding strict_ddmmyyyy_iff by blast
  from assms(2) have r: "real_date (py_int ys) (py_int [m1, m2]) (py_int [d1, d2])"
    by (simp add: s)
  then have b: "1 \<le> py_int [m1, m2]" "py_int [m1, m2] \<le> 12" "1 \<le> py_int [d1, d2]"
    "py_int [d1, d2] \<le> days_in_month (py_int ys) (py_int [m1, m2])"
    by (simp_all add: real_date_def)
  from b month_span(3) [of "py_int [m1, m2]" "py_int ys"]
  have "py_int [d1, d2] \<le> 31" by linarith
  with b d have "day_text [d1, d2]" "month_text [m1, m2]"
    by (blast intro: two_digit_day two_digit_month)+
  with y r s have "\<exists>ds ms ys. s = ds @ ''.'' @ ms @ ''.'' @ ys \<and> day_text ds \<and> month_text ms
           \<and> year_text ys \<and> real_date (py_int ys) (py_int ms) (py_int ds)"
    by blast
  then show ?thesis
    unfolding Birthday_of_strptime strptime_accepts_iff by simp
qed

subsection \<open>The examples of the specification\<close>

text \<open>
  10 June 2024 is a Monday, 15 June 2024 a Saturday and 25 February 2023 a Saturday, as
  the names of the example dates say.
\<close>

lemma example_weekdays:
  "weekday monday_2024_06_10 = 0"
  "weekday \<lparr>year = 2024, month = 6, day = 15\<rparr> = 5"
  "weekday saturday_2023_02_25 = 5"
  by code_simp+

text \<open>
  Editing \<open>1112223330\<close> to \<open>4445556660\<close> on a record holding \<open>1112223330\<close> succeeds in both
  files and leaves \<open>4445556660\<close>; editing a number the record does not hold fails.
\<close>

lemma example_edit_phone:
  "edit_phone_v1 ''1112223330'' ''4445556660'' bob = (Inr (), bob\<lparr>phones := [''4445556660'']\<rparr>)"
  "edit_phone_main ''1112223330'' ''4445556660'' bob = (Inr (), bob\<lparr>phones := [''4445556660'']\<rparr>)"
  "edit_phone_v1 ''0000000000'' ''4445556660'' bob = (Inl (ValueError phone_not_found_msg_v1), bob)"
  "edit_phone_main ''0000000000'' ''4445556660'' bob
     = (Inl (ValueError old_phone_not_found_msg_main), bob)"
  by code_simp+

text \<open>A record added to the book is found under its name, phones and birthday as added.\<close>

lemma add_then_find:
  "find_v1 (name r) (snd (add_record_v1 r book)) = Some r"
  "\<not> dict_contains book (name r) \<Longrightarrow>
     search_record_main (name r) (snd (add_record_main r book)) = Some r"
  by (simp_all add: find_v1_def search_record_main_def add_record_v1_def add_record_main_def
      dict_get_def map_of_dict_set)

end
